theory Spec2Isabelle
  imports Complex_Main
begin

section \<open>Values held in table cells\<close>

text \<open>
  The tables of \<^verbatim>\<open>electric_tower_utils.py\<close> are pandas data frames. A cell holds a
  Python float (which may be \<^verbatim>\<open>nan\<close> or an infinity; pandas also uses \<^verbatim>\<open>nan\<close> for a
  missing value), an integer of an \<^verbatim>\<open>int64\<close> column, or a Python string. A finite
  float is represented by the real number it denotes.
\<close>

datatype pyfloat = NaN | NegInf | Num real | PosInf

text \<open>Python's \<^verbatim>\<open><=\<close> on floats: every comparison with \<^verbatim>\<open>nan\<close> is false.\<close>

fun fle :: "pyfloat \<Rightarrow> pyfloat \<Rightarrow> bool" where
  "fle NaN _ = False"
| "fle _ NaN = False"
| "fle NegInf _ = True"
| "fle _ PosInf = True"
| "fle (Num x) (Num y) = (x \<le> y)"
| "fle (Num _) NegInf = False"
| "fle PosInf _ = False"

datatype cell = Flt pyfloat | Int64 int | Str string

text \<open>
  The conversion of an integer to \<^verbatim>\<open>float64\<close>: a float has 53 significant bits, so an
  integer with more bits is rounded to the nearest integer that has its low bits zero,
  a tie going to the one whose last kept bit is zero. (Every \<^verbatim>\<open>int64\<close> is within the
  range of the finite floats.)
\<close>

fun bit_length :: "nat \<Rightarrow> nat" where
  "bit_length n = (if n = 0 then 0 else Suc (bit_length (n div 2)))"

declare bit_length.simps [simp del]

definition float64 :: "int \<Rightarrow> pyfloat" where
  "float64 n =
     (let m = nat \<bar>n\<bar>; e = bit_length m - 53; q = m div 2 ^ e; r = m mod 2 ^ e in
      if e = 0 then Num (of_int n)
      else Num (of_int (sgn n * int ((if 2 ^ (e - 1) < r \<or> (r = 2 ^ (e - 1) \<and> odd q) then q + 1 else q) * 2 ^ e))))"

datatype error =
    IndexError
  | ValueError_invalid_polygon string
  | UnboundLocalError string
  | ValueError_no_objects_to_concatenate
  | KeyError string
  | TypeError
  | FileNotFoundError
  | WKTReadingError
  | AttributeError string

section \<open>Subset filter: \<^verbatim>\<open>df_subset\<close>\<close>

text \<open>
  A data frame has a schema (its column labels) and a sequence of rows; a row maps
  column labels to cells. A label of the schema that a row does not bind reads as
  \<^verbatim>\<open>nan\<close>, as pandas fills it.
\<close>

type_synonym row = "(string \<times> cell) list"

record dataframe =
  columns :: "string list"
  rows :: "row list"

definition cell_of :: "row \<Rightarrow> string \<Rightarrow> cell" where
  "cell_of r f = (case map_of r f of None \<Rightarrow> Flt NaN | Some c \<Rightarrow> c)"

text \<open>\<^verbatim>\<open>df[feature]\<close>: the column as a series, or \<^verbatim>\<open>KeyError\<close>.\<close>

definition getitem :: "dataframe \<Rightarrow> string \<Rightarrow> error + cell list" where
  "getitem df feature =
     (if feature \<in> set (columns df) then Inr (map (\<lambda>r. cell_of r feature) (rows df))
      else Inl (KeyError feature))"

text \<open>
  \<^verbatim>\<open>x >= min_value\<close> and \<^verbatim>\<open>x <= max_value\<close> for one cell and a float bound. An integer
  column is compared with a float after its conversion to \<^verbatim>\<open>float64\<close>. Python refuses
  to order a string and a float.
\<close>

fun cell_ge :: "pyfloat \<Rightarrow> cell \<Rightarrow> error + bool" where
  "cell_ge m (Flt v) = Inr (fle m v)"
| "cell_ge m (Int64 n) = Inr (fle m (float64 n))"
| "cell_ge m (Str s) = Inl TypeError"

fun cell_le :: "pyfloat \<Rightarrow> cell \<Rightarrow> error + bool" where
  "cell_le m (Flt v) = Inr (fle v m)"
| "cell_le m (Int64 n) = Inr (fle (float64 n) m)"
| "cell_le m (Str s) = Inl TypeError"

text \<open>The comparison of a whole series with a scalar: element by element.\<close>

fun series_cmp :: "(cell \<Rightarrow> error + bool) \<Rightarrow> cell list \<Rightarrow> error + bool list" where
  "series_cmp p [] = Inr []"
| "series_cmp p (c # cs) =
     (case p c of
        Inl e \<Rightarrow> Inl e
      | Inr b \<Rightarrow> (case series_cmp p cs of Inl e \<Rightarrow> Inl e | Inr bs \<Rightarrow> Inr (b # bs)))"

text \<open>\<^verbatim>\<open>df.loc[mask]\<close>: the rows at the positions where the boolean series is true.\<close>

definition loc :: "dataframe \<Rightarrow> bool list \<Rightarrow> dataframe" where
  "loc df msk = df\<lparr>rows := map fst (filter snd (zip (rows df) msk))\<rparr>"

definition df_subset :: "dataframe \<Rightarrow> string \<Rightarrow> pyfloat \<Rightarrow> pyfloat \<Rightarrow> error + dataframe" where
  "df_subset df feature min_value max_value =
     (case getitem df feature of
        Inl e \<Rightarrow> Inl e
      | Inr col \<Rightarrow>
          (case series_cmp (cell_ge min_value) col of
             Inl e \<Rightarrow> Inl e
           | Inr ge \<Rightarrow>
               (case series_cmp (cell_le max_value) col of
                  Inl e \<Rightarrow> Inl e
                | Inr le \<Rightarrow> Inr (loc df (map2 (\<and>) ge le)))))"

text \<open>Running a second call on the table a first call returned; an error of the first
  call propagates.\<close>

definition and_then :: "error + 'a \<Rightarrow> ('a \<Rightarrow> error + 'b) \<Rightarrow> error + 'b" where
  "and_then r f = (case r of Inl e \<Rightarrow> Inl e | Inr x \<Rightarrow> f x)"

section \<open>Geometries\<close>

text \<open>
  The geometry objects of shapely, as far as the code looks into them: the kind of a
  geometry (the string \<^verbatim>\<open>geom_type\<close>) and the coordinate sequence of a line.
  Only the x and y of a vertex are read (\<^verbatim>\<open>coords.xy\<close>).
\<close>

type_synonym coord = "pyfloat \<times> pyfloat"

datatype geometry =
    Point coord
  | LineString "coord list"
  | LinearRing "coord list"
  | Polygon "coord list" "coord list list"
  | MultiPoint "coord list"
  | MultiLineString "coord list list"
  | MultiPolygon "(coord list \<times> coord list list) list"
  | GeometryCollection "geometry list"

fun geom_type :: "geometry \<Rightarrow> string" where
  "geom_type (Point _) = ''Point''"
| "geom_type (LineString _) = ''LineString''"
| "geom_type (LinearRing _) = ''LinearRing''"
| "geom_type (Polygon _ _) = ''Polygon''"
| "geom_type (MultiPoint _) = ''MultiPoint''"
| "geom_type (MultiLineString _) = ''MultiLineString''"
| "geom_type (MultiPolygon _) = ''MultiPolygon''"
| "geom_type (GeometryCollection _) = ''GeometryCollection''"

text \<open>
  \<^verbatim>\<open>geometry.coords\<close>. Shapely provides it for points, lines and rings only; the code
  reads it only in the branch where \<^verbatim>\<open>geom_type == 'LineString'\<close>, so the value given
  to the other kinds is never used.
\<close>

fun coords :: "geometry \<Rightarrow> coord list" where
  "coords (Point p) = [p]"
| "coords (LineString vs) = vs"
| "coords (LinearRing vs) = vs"
| "coords _ = []"

definition xy :: "coord list \<Rightarrow> pyfloat list \<times> pyfloat list" where
  "xy vs = (map fst vs, map snd vs)"

section \<open>Tables of the pipeline\<close>

text \<open>
  A line feature of the input shapefile, with the attributes the pipeline reads; a row
  of the table that \<^verbatim>\<open>split_txlines_by_region\<close> builds and writes to \<^verbatim>\<open>tx_lines.csv\<close>,
  which adds the columns \<^verbatim>\<open>state\<close> and \<^verbatim>\<open>region\<close>; a row of
  \<^verbatim>\<open>tower_coordinates.csv\<close>. A column that a frame does not have yet reads as
  \<^verbatim>\<open>nan\<close>. In memory every row carries its index label. \<^verbatim>\<open>get_tower_coords\<close> reads
  a csv file back as a data frame of cells, with the geometry column as text.
\<close>

record line_feature =
  ID :: cell
  SHAPE_Leng :: cell
  VOLTAGE :: cell
  OWNER :: cell
  geometry :: geometry

record partitioned_line = line_feature +
  state :: cell
  region :: cell

record tower_point =
  id_tp :: cell
  tx_line_length :: cell
  voltage :: cell
  state_tp :: cell
  region_tp :: cell
  owner :: cell
  lon :: pyfloat
  lat :: pyfloat

type_synonym frame = "(nat \<times> partitioned_line) list"

section \<open>The log file\<close>

text \<open>
  One entry per call of \<^verbatim>\<open>logf.write\<close>, holding the values the message is formatted
  from. The handle buffers what is written until it is flushed or closed.
\<close>

datatype log_entry =
    Logging_at string
  | Region_banner string
  | State_records string nat
  | Geom_skipped cell nat string

record logfile =
  on_disk :: "log_entry list"
  buffered :: "log_entry list"
  is_open :: bool

definition log_open :: logfile where
  "log_open = \<lparr>on_disk = [], buffered = [], is_open = True\<rparr>"

definition log_write :: "log_entry \<Rightarrow> logfile \<Rightarrow> logfile" where
  "log_write e lf = lf\<lparr>buffered := buffered lf @ [e]\<rparr>"

definition log_flush :: "logfile \<Rightarrow> logfile" where
  "log_flush lf = lf\<lparr>on_disk := on_disk lf @ buffered lf, buffered := []\<rparr>"

definition log_close :: "logfile \<Rightarrow> logfile" where
  "log_close lf = (log_flush lf)\<lparr>is_open := False\<rparr>"

text \<open>Everything written through the handle so far, flushed or not.\<close>

definition written :: "logfile \<Rightarrow> log_entry list" where
  "written lf = on_disk lf @ buffered lf"

section \<open>Line-to-point decomposition: \<^verbatim>\<open>get_tower_coords\<close>\<close>

text \<open>
  \<^verbatim>\<open>pd.read_csv(filename)\<close>: the file holds a table (its header and its rows), or
  there is no such file.
\<close>

definition read_csv :: "dataframe option \<Rightarrow> error + dataframe" where
  "read_csv file = (case file of None \<Rightarrow> Inl FileNotFoundError | Some df \<Rightarrow> Inr df)"

text \<open>
  \<^verbatim>\<open>wkt.loads\<close> on one cell of the geometry column. What shapely reads out of a text is
  a parameter (\<open>None\<close>: the text is not well-known text); anything but a string is
  refused with \<^verbatim>\<open>TypeError\<close>.
\<close>

fun loads_cell :: "(string \<Rightarrow> geometry option) \<Rightarrow> cell \<Rightarrow> error + geometry" where
  "loads_cell wkt_loads (Str text) =
     (case wkt_loads text of None \<Rightarrow> Inl WKTReadingError | Some g \<Rightarrow> Inr g)"
| "loads_cell wkt_loads (Flt v) = Inl TypeError"
| "loads_cell wkt_loads (Int64 n) = Inl TypeError"

text \<open>\<^verbatim>\<open>series.apply(f)\<close>: element by element, stopping at the first exception.\<close>

fun apply_series :: "(cell \<Rightarrow> error + 'a) \<Rightarrow> cell list \<Rightarrow> error + 'a list" where
  "apply_series f [] = Inr []"
| "apply_series f (c # cs) =
     (case f c of
        Inl e \<Rightarrow> Inl e
      | Inr g \<Rightarrow> (case apply_series f cs of Inl e \<Rightarrow> Inl e | Inr gs \<Rightarrow> Inr (g # gs)))"

text \<open>
  \<^verbatim>\<open>row['ID']\<close> and \<^verbatim>\<open>row.ID\<close> for a row of a frame with the column labels \<open>cols\<close>: a
  label that the frame does not have raises \<^verbatim>\<open>KeyError\<close>, respectively
  \<^verbatim>\<open>AttributeError\<close>.
\<close>

definition item :: "string list \<Rightarrow> row \<Rightarrow> string \<Rightarrow> error + cell" where
  "item cols r k = (if k \<in> set cols then Inr (cell_of r k) else Inl (KeyError k))"

definition attr :: "string list \<Rightarrow> row \<Rightarrow> string \<Rightarrow> error + cell" where
  "attr cols r k = (if k \<in> set cols then Inr (cell_of r k) else Inl (AttributeError k))"

text \<open>
  The data frame built for one line: the six scalars are read in the order of the
  dictionary and broadcast over the two coordinate columns.
\<close>

definition points_of ::
  "string list \<Rightarrow> row \<Rightarrow> pyfloat list \<Rightarrow> pyfloat list \<Rightarrow> error + tower_point list" where
  "points_of cols row x y =
     and_then (item cols row ''ID'') (\<lambda>id_v.
     and_then (item cols row ''SHAPE_Leng'') (\<lambda>length_v.
     and_then (item cols row ''VOLTAGE'') (\<lambda>voltage_v.
     and_then (item cols row ''state'') (\<lambda>state_v.
     and_then (item cols row ''region'') (\<lambda>region_v.
     and_then (item cols row ''OWNER'') (\<lambda>owner_v.
       Inr (map2 (\<lambda>lon_v lat_v.
                   \<lparr>id_tp = id_v, tx_line_length = length_v, voltage = voltage_v,
                    state_tp = state_v, region_tp = region_v, owner = owner_v,
                    lon = lon_v, lat = lat_v\<rparr>) x y)))))))"

text \<open>
  The loop over \<^verbatim>\<open>gdf.iterrows()\<close>; a row comes with the geometry parsed from its
  text. The frame was read from the csv file, so the index label of a row is its
  position; \<^verbatim>\<open>index\<close> counts it. An exception leaves the loop with the log as it is.
\<close>

fun tower_loop ::
  "string list \<Rightarrow> nat \<Rightarrow> (row \<times> geometry) list \<Rightarrow> tower_point list \<Rightarrow> logfile \<Rightarrow>
   (error + tower_point list) \<times> logfile" where
  "tower_loop cols index [] temp_df logf = (Inr temp_df, logf)"
| "tower_loop cols index ((row, g) # rest) temp_df logf =
     (if geom_type g = ''LineString'' then
        (case xy (coords g) of
           (x, y) \<Rightarrow>
             (case points_of cols row x y of
                Inl e \<Rightarrow> (Inl e, logf)
              | Inr new_points \<Rightarrow> tower_loop cols (Suc index) rest (temp_df @ new_points) logf))
      else
        (case attr cols row ''ID'' of
           Inl e \<Rightarrow> (Inl e, logf)
         | Inr id_v \<Rightarrow>
             tower_loop cols (Suc index) rest temp_df
               (log_flush (log_write (Geom_skipped id_v index (geom_type g)) logf))))"

text \<open>
  How a call ends: the table it returns or the exception it raises, the csv file if
  the call wrote it, and the log file with its handle.
\<close>

record tower_run =
  result :: "error + tower_point list"
  tower_coordinates_csv :: "tower_point list option"
  error_log :: logfile

text \<open>
  \<^verbatim>\<open>get_tower_coords\<close> from the point where the log file has been opened;
  \<^verbatim>\<open>current_time\<close> is the clock reading that is logged and \<open>file\<close> is what is stored
  under \<^verbatim>\<open>filename\<close>. The handle is closed by the last statements only.
\<close>

definition get_tower_coords ::
  "(string \<Rightarrow> geometry option) \<Rightarrow> string \<Rightarrow> dataframe option \<Rightarrow> tower_run" where
  "get_tower_coords wkt_loads current_time file =
     (let logf = log_write (Logging_at current_time) log_open in
      case read_csv file of
        Inl e \<Rightarrow> \<lparr>result = Inl e, tower_coordinates_csv = None, error_log = logf\<rparr>
      | Inr df \<Rightarrow>
          (case and_then (getitem df ''geometry'') (apply_series (loads_cell wkt_loads)) of
             Inl e \<Rightarrow> \<lparr>result = Inl e, tower_coordinates_csv = None, error_log = logf\<rparr>
           | Inr geometries \<Rightarrow>
               (case tower_loop (columns df) 0 (zip (rows df) geometries) [] logf of
                  (Inl e, logf1) \<Rightarrow>
                    \<lparr>result = Inl e, tower_coordinates_csv = None, error_log = logf1\<rparr>
                | (Inr temp_df, logf1) \<Rightarrow>
                    \<lparr>result = Inr temp_df, tower_coordinates_csv = Some temp_df,
                     error_log = log_close logf1\<rparr>)))"

section \<open>Region partitioning: \<^verbatim>\<open>split_txlines_by_region\<close>\<close>

text \<open>
  The module \<^verbatim>\<open>CONSTANTS\<close> is not part of the sources at hand, so the reference table
  \<^verbatim>\<open>US_STATES\<close> (state name and boundary geometry, row by row) is a parameter, and so
  is shapely's predicate \<^verbatim>\<open>contains\<close>.

  \<^verbatim>\<open>US_STATES[US_STATES.STATE_NAME == state]['geometry'].values[0]\<close>: the geometry of the
  first row with that name; indexing the empty selection raises \<^verbatim>\<open>IndexError\<close>.
\<close>

definition state_polygon :: "(string \<times> geometry) list \<Rightarrow> string \<Rightarrow> error + geometry" where
  "state_polygon US_STATES st =
     (case map snd (filter (\<lambda>r. fst r = st) US_STATES) of
        [] \<Rightarrow> Inl IndexError
      | polygon # _ \<Rightarrow> Inr polygon)"

text \<open>
  The rows appended to the fresh \<^verbatim>\<open>temp_df\<close> by the loop over \<^verbatim>\<open>tmp_gdf.iterrows()\<close>:
  those whose geometry the area contains, in the order of the input, each under its
  index label.
\<close>

definition as_row :: "line_feature \<Rightarrow> partitioned_line" where
  "as_row f =
     \<lparr>ID = ID f, SHAPE_Leng = SHAPE_Leng f, VOLTAGE = VOLTAGE f, OWNER = OWNER f,
      geometry = geometry f, state = Flt NaN, region = Flt NaN\<rparr>"

definition rows_within ::
  "(geometry \<Rightarrow> geometry \<Rightarrow> bool) \<Rightarrow> geometry \<Rightarrow> (nat \<times> line_feature) list \<Rightarrow> frame" where
  "rows_within contains valid_area tmp_gdf =
     map (\<lambda>(index, row). (index, as_row row))
       (filter (\<lambda>(index, row). contains valid_area (geometry row)) tmp_gdf)"

text \<open>\<^verbatim>\<open>df['state'] = state\<close> and \<^verbatim>\<open>df['region'] = region_name\<close>: a column set to a scalar.\<close>

definition set_state :: "string \<Rightarrow> frame \<Rightarrow> frame" where
  "set_state st df = map (\<lambda>(index, row). (index, row\<lparr>state := Str st\<rparr>)) df"

definition set_region :: "string \<Rightarrow> frame \<Rightarrow> frame" where
  "set_region region_name df = map (\<lambda>(index, row). (index, row\<lparr>region := Str region_name\<rparr>)) df"

text \<open>
  The variables of a run. Data frames are objects: \<^verbatim>\<open>region_df\<close> and the elements of
  the list \<^verbatim>\<open>tx_lines\<close> are references into a store, \<^verbatim>\<open>pd.concat\<close> makes a new object,
  and setting a column changes the object for every reference to it. \<^verbatim>\<open>region_df\<close> is
  unbound until its first assignment.
\<close>

record run_state =
  logf :: logfile
  store :: "nat \<Rightarrow> frame"
  fresh :: nat
  tx_lines :: "nat list"
  region_df :: "nat option"
  tx_lines_csv :: "partitioned_line list option"

datatype outcome = Returned run_state | Raised error run_state

definition new_frame :: "frame \<Rightarrow> run_state \<Rightarrow> nat \<times> run_state" where
  "new_frame df s = (fresh s, s\<lparr>store := (store s)(fresh s := df), fresh := Suc (fresh s)\<rparr>)"

text \<open>The loop \<^verbatim>\<open>for state in region_state\<close>; \<^verbatim>\<open>region_list\<close> is its local list.\<close>

fun states_loop ::
  "(string \<times> geometry) list \<Rightarrow> (geometry \<Rightarrow> geometry \<Rightarrow> bool) \<Rightarrow> (nat \<times> line_feature) list \<Rightarrow>
   string list \<Rightarrow> frame list \<Rightarrow> run_state \<Rightarrow> outcome" where
  "states_loop US_STATES contains tmp_gdf [] region_list s = Returned s"
| "states_loop US_STATES contains tmp_gdf (st # rest) region_list s =
     (case state_polygon US_STATES st of
        Inl e \<Rightarrow> Raised e s
      | Inr polygon \<Rightarrow>
          if geom_type polygon = ''Polygon'' \<or> geom_type polygon = ''MultiPolygon'' then
            (let temp_df = set_state st (rows_within contains polygon tmp_gdf);
                 s1 = s\<lparr>logf := log_flush (log_write (State_records st (length temp_df)) (logf s))\<rparr>;
                 region_list1 = region_list @ [temp_df]
             in case new_frame (concat region_list1) s1 of
                  (a, s2) \<Rightarrow>
                    states_loop US_STATES contains tmp_gdf rest region_list1
                      (s2\<lparr>region_df := Some a\<rparr>))
          else Raised (ValueError_invalid_polygon (geom_type polygon)) s)"

text \<open>The loop \<^verbatim>\<open>for region_name, region_state in zip(region_names, region_states)\<close>.\<close>

fun regions_loop ::
  "(string \<times> geometry) list \<Rightarrow> (geometry \<Rightarrow> geometry \<Rightarrow> bool) \<Rightarrow> (nat \<times> line_feature) list \<Rightarrow>
   (string \<times> string list) list \<Rightarrow> run_state \<Rightarrow> outcome" where
  "regions_loop US_STATES contains tmp_gdf [] s = Returned s"
| "regions_loop US_STATES contains tmp_gdf ((region_name, region_state) # rest) s =
     (case states_loop US_STATES contains tmp_gdf region_state []
             (s\<lparr>logf := log_write (Region_banner region_name) (logf s)\<rparr>) of
        Raised e s1 \<Rightarrow> Raised e s1
      | Returned s1 \<Rightarrow>
          (case region_df s1 of
             None \<Rightarrow> Raised (UnboundLocalError ''region_df'') s1
           | Some a \<Rightarrow>
               regions_loop US_STATES contains tmp_gdf rest
                 (s1\<lparr>store := (store s1)(a := set_region region_name (store s1 a)),
                     tx_lines := tx_lines s1 @ [a]\<rparr>)))"

text \<open>\<^verbatim>\<open>pd.concat(tx_lines)\<close>: refuses an empty list; else the rows of the objects in turn.\<close>

definition concat_frames :: "run_state \<Rightarrow> error + frame" where
  "concat_frames s =
     (case tx_lines s of
        [] \<Rightarrow> Inl ValueError_no_objects_to_concatenate
      | _ \<Rightarrow> Inr (concat (map (store s) (tx_lines s))))"

definition start_state :: "string \<Rightarrow> run_state" where
  "start_state current_time =
     \<lparr>logf = log_write (Logging_at current_time) log_open, store = (\<lambda>a. []), fresh = 0,
      tx_lines = [], region_df = None, tx_lines_csv = None\<rparr>"

text \<open>
  \<^verbatim>\<open>split_txlines_by_region\<close> from the point where the shapefile has been read and
  brought to longitude and latitude (\<^verbatim>\<open>tmp_gdf\<close>, a frame with a range index) and the
  log file has been opened. The csv file is written without the index column.
\<close>

definition split_txlines_by_region ::
  "(string \<times> geometry) list \<Rightarrow> (geometry \<Rightarrow> geometry \<Rightarrow> bool) \<Rightarrow> string \<Rightarrow> line_feature list \<Rightarrow>
   string list \<Rightarrow> string list list \<Rightarrow> outcome" where
  "split_txlines_by_region US_STATES contains current_time tmp_gdf region_names region_states =
     (case regions_loop US_STATES contains (enumerate 0 tmp_gdf) (zip region_names region_states)
             (start_state current_time) of
        Raised e s \<Rightarrow> Raised e s
      | Returned s \<Rightarrow>
          (case concat_frames s of
             Inl e \<Rightarrow> Raised e s
           | Inr df \<Rightarrow> Returned (s\<lparr>tx_lines_csv := Some (map snd df), logf := log_close (logf s)\<rparr>)))"

section \<open>Notions used to state the properties\<close>

text \<open>
  A cell that holds a number, the float that a comparison with a float bound sees in
  it, and a number within two inclusive bounds.
\<close>

fun numeric :: "cell \<Rightarrow> bool" where
  "numeric (Flt _) = True"
| "numeric (Int64 _) = True"
| "numeric (Str _) = False"

fun as_float :: "cell \<Rightarrow> pyfloat option" where
  "as_float (Flt v) = Some v"
| "as_float (Int64 n) = Some (float64 n)"
| "as_float (Str _) = None"

definition in_range :: "pyfloat \<Rightarrow> pyfloat \<Rightarrow> cell \<Rightarrow> bool" where
  "in_range lo hi c = (case as_float c of None \<Rightarrow> False | Some v \<Rightarrow> fle lo v \<and> fle v hi)"

text \<open>The positional index a skip entry of the log records.\<close>

fun entry_index :: "log_entry \<Rightarrow> nat option" where
  "entry_index (Geom_skipped _ index _) = Some index"
| "entry_index _ = None"

text \<open>
  The geometry that \<^const>\<open>get_tower_coords\<close> parses for a row of the file, and what one
  iteration of \<^const>\<open>tower_loop\<close> appends to the table and to the log when the frame has
  the columns it reads.
\<close>

definition geometry_of :: "(string \<Rightarrow> geometry option) \<Rightarrow> row \<Rightarrow> error + geometry" where
  "geometry_of wkt_loads r = loads_cell wkt_loads (cell_of r ''geometry'')"

definition parsed :: "(string \<Rightarrow> geometry option) \<Rightarrow> row list \<Rightarrow> (row \<times> geometry) list" where
  "parsed wkt_loads rs = map (\<lambda>r. (r, projr (geometry_of wkt_loads r))) rs"

definition tower_rows :: "row \<times> geometry \<Rightarrow> tower_point list" where
  "tower_rows rg =
     (if geom_type (snd rg) = ''LineString''
      then map (\<lambda>v. \<lparr>id_tp = cell_of (fst rg) ''ID'', tx_line_length = cell_of (fst rg) ''SHAPE_Leng'',
                     voltage = cell_of (fst rg) ''VOLTAGE'', state_tp = cell_of (fst rg) ''state'',
                     region_tp = cell_of (fst rg) ''region'', owner = cell_of (fst rg) ''OWNER'',
                     lon = fst v, lat = snd v\<rparr>) (coords (snd rg))
      else [])"

fun skip_entries :: "nat \<Rightarrow> (row \<times> geometry) list \<Rightarrow> log_entry list" where
  "skip_entries index [] = []"
| "skip_entries index (rg # rest) =
     (if geom_type (snd rg) = ''LineString'' then skip_entries (Suc index) rest
      else Geom_skipped (cell_of (fst rg) ''ID'') index (geom_type (snd rg)) #
           skip_entries (Suc index) rest)"

text \<open>
  A state name that \<^const>\<open>states_loop\<close> accepts: it resolves in the reference table,
  and to a Polygon or a MultiPolygon.
\<close>

definition valid_state :: "(string \<times> geometry) list \<Rightarrow> string \<Rightarrow> bool" where
  "valid_state US_STATES st =
     (case state_polygon US_STATES st of
        Inl _ \<Rightarrow> False
      | Inr polygon \<Rightarrow> geom_type polygon = ''Polygon'' \<or> geom_type polygon = ''MultiPolygon'')"

text \<open>The containment test of the code for a state name and a line geometry.\<close>

definition state_contains ::
  "(string \<times> geometry) list \<Rightarrow> (geometry \<Rightarrow> geometry \<Rightarrow> bool) \<Rightarrow> string \<Rightarrow> geometry \<Rightarrow> bool" where
  "state_contains US_STATES contains st line =
     (case state_polygon US_STATES st of Inl _ \<Rightarrow> False | Inr polygon \<Rightarrow> contains polygon line)"

text \<open>
  The frame \<^verbatim>\<open>temp_df\<close> that one iteration for a state builds, the frame a region with
  its own states gives once stamped, and the lines a region writes to the log.
\<close>

definition state_frame ::
  "(string \<times> geometry) list \<Rightarrow> (geometry \<Rightarrow> geometry \<Rightarrow> bool) \<Rightarrow> (nat \<times> line_feature) list \<Rightarrow>
   string \<Rightarrow> frame" where
  "state_frame US_STATES contains tmp_gdf st =
     (case state_polygon US_STATES st of
        Inl _ \<Rightarrow> []
      | Inr polygon \<Rightarrow> set_state st (rows_within contains polygon tmp_gdf))"

definition region_frame ::
  "(string \<times> geometry) list \<Rightarrow> (geometry \<Rightarrow> geometry \<Rightarrow> bool) \<Rightarrow> (nat \<times> line_feature) list \<Rightarrow>
   string \<times> string list \<Rightarrow> frame" where
  "region_frame US_STATES contains tmp_gdf r =
     set_region (fst r) (concat (map (state_frame US_STATES contains tmp_gdf) (snd r)))"

definition region_log ::
  "(string \<times> geometry) list \<Rightarrow> (geometry \<Rightarrow> geometry \<Rightarrow> bool) \<Rightarrow> (nat \<times> line_feature) list \<Rightarrow>
   string \<times> string list \<Rightarrow> log_entry list" where
  "region_log US_STATES contains tmp_gdf r =
     Region_banner (fst r) #
     map (\<lambda>st. State_records st (length (state_frame US_STATES contains tmp_gdf st))) (snd r)"

text \<open>The state in which a run ends, and the frame \<^verbatim>\<open>pd.concat(tx_lines)\<close> in a state.\<close>

fun final_state :: "outcome \<Rightarrow> run_state" where
  "final_state (Returned s) = s"
| "final_state (Raised e s) = s"

definition table_of :: "run_state \<Rightarrow> frame" where
  "table_of s = concat (map (store s) (tx_lines s))"

text \<open>The rows of a frame that come from the input line \<open>i\<close> and carry a region name.\<close>

definition rows_for :: "nat \<Rightarrow> string \<Rightarrow> frame \<Rightarrow> frame" where
  "rows_for i region_name df = filter (\<lambda>r. fst r = i \<and> region (snd r) = Str region_name) df"

text \<open>The exception a run ends with, if any.\<close>

fun raised :: "outcome \<Rightarrow> error option" where
  "raised (Returned s) = None"
| "raised (Raised e s) = Some e"

section \<open>Sample data\<close>

definition sample_points :: dataframe where
  "sample_points =
     \<lparr>columns = [''id'', ''voltage'', ''state''],
      rows = [[(''id'', Flt (Num 1)), (''voltage'', Flt (Num 115)), (''state'', Str ''VT'')],
              [(''id'', Flt (Num 2)), (''voltage'', Flt (Num 230)), (''state'', Str ''VT'')],
              [(''id'', Flt (Num 3)), (''voltage'', Flt NaN), (''state'', Str ''NH'')],
              [(''id'', Flt (Num 4)), (''voltage'', Flt (Num 500)), (''state'', Str ''NH'')],
              [(''id'', Flt (Num 5)), (''voltage'', Flt (Num 230)), (''state'', Str ''NH'')]]\<rparr>"

text \<open>A table whose \<^verbatim>\<open>id\<close> column is an integer column with values beyond 53 bits.\<close>

definition sample_ids :: dataframe where
  "sample_ids =
     \<lparr>columns = [''id''],
      rows = [[(''id'', Int64 9007199254740992)], [(''id'', Int64 9007199254740993)]]\<rparr>"

text \<open>
  Rows of a \<^verbatim>\<open>tx_lines.csv\<close> with its header, the geometries that their texts denote,
  and the header of the file that is written when no line was inside any state.
\<close>

definition sample_header :: "string list" where
  "sample_header =
     [''ID'', ''SHAPE_Leng'', ''VOLTAGE'', ''OWNER'', ''geometry'', ''state'', ''region'']"

definition sample_line :: row where
  "sample_line =
     [(''ID'', Int64 1), (''SHAPE_Leng'', Flt (Num 2)), (''VOLTAGE'', Flt (Num 230)),
      (''OWNER'', Str ''GMP''), (''geometry'', Str ''LINESTRING (1 1, 2 1, 2 2)''),
      (''state'', Str ''VT''), (''region'', Str ''NE'')]"

definition sample_multiline :: row where
  "sample_multiline =
     [(''ID'', Int64 7), (''SHAPE_Leng'', Flt (Num 3)), (''VOLTAGE'', Flt (Num 115)),
      (''OWNER'', Str ''PSNH''), (''geometry'', Str ''MULTILINESTRING ((5 1, 6 1), (6 2, 6 3))''),
      (''state'', Str ''NH''), (''region'', Str ''NE'')]"

definition sample_wkt :: "string \<Rightarrow> geometry option" where
  "sample_wkt =
     map_of
       [(''LINESTRING (1 1, 2 1, 2 2)'', LineString [(Num 1, Num 1), (Num 2, Num 1), (Num 2, Num 2)]),
        (''MULTILINESTRING ((5 1, 6 1), (6 2, 6 3))'',
         MultiLineString [[(Num 5, Num 1), (Num 6, Num 1)], [(Num 6, Num 2), (Num 6, Num 3)]])]"


text \<open>
  Two state areas that overlap, a reference row whose geometry is no area, three lines
  (one inside the first area only, one inside both, one inside none), and a
  containment relation given by its table.
\<close>

definition sample_vt :: geometry where
  "sample_vt = Polygon [(Num 0, Num 0), (Num 4, Num 0), (Num 4, Num 4), (Num 0, Num 4)] []"

definition sample_nh :: geometry where
  "sample_nh = MultiPolygon [([(Num 3, Num 0), (Num 7, Num 0), (Num 7, Num 4), (Num 3, Num 4)], [])]"

definition sample_states :: "(string \<times> geometry) list" where
  "sample_states =
     [(''VT'', sample_vt), (''NH'', sample_nh), (''Lake'', LineString [(Num 0, Num 5), (Num 7, Num 5)])]"

definition line_vt :: line_feature where
  "line_vt =
     \<lparr>ID = Flt (Num 1), SHAPE_Leng = Flt (Num 2), VOLTAGE = Flt (Num 230), OWNER = Str ''GMP'',
      geometry = LineString [(Num 1, Num 1), (Num 2, Num 1), (Num 2, Num 2)]\<rparr>"

definition line_both :: line_feature where
  "line_both =
     \<lparr>ID = Flt (Num 2), SHAPE_Leng = Flt (Num 1), VOLTAGE = Flt (Num 115), OWNER = Str ''PSNH'',
      geometry = LineString [(Num 3, Num 1), (Num 4, Num 1)]\<rparr>"

definition line_out :: line_feature where
  "line_out =
     \<lparr>ID = Flt (Num 3), SHAPE_Leng = Flt (Num 1), VOLTAGE = Flt (Num 345), OWNER = Str ''NYPA'',
      geometry = LineString [(Num 8, Num 8), (Num 9, Num 8)]\<rparr>"

definition sample_contains :: "geometry \<Rightarrow> geometry \<Rightarrow> bool" where
  "sample_contains area line =
     ((area, line) \<in> set [(sample_vt, geometry line_vt), (sample_vt, geometry line_both),
                           (sample_nh, geometry line_both)])"

section \<open>Properties of \<^verbatim>\<open>df_subset\<close>\<close>

lemma float64_finite: "\<exists>x. float64 n = Num x"
  by (simp add: float64_def Let_def)

lemma fle_top: "(fle m v \<and> fle v PosInf) = fle m v"
  by (cases m; cases v) simp_all

lemma fle_bottom: "(fle NegInf v \<and> fle v m) = fle v m"
  by (cases m; cases v) simp_all

lemma cell_ge_char:
  "cell_ge m c = (if numeric c then Inr (in_range m PosInf c) else Inl TypeError)"
  by (cases c) (simp_all add: in_range_def fle_top)

lemma cell_le_char:
  "cell_le m c = (if numeric c then Inr (in_range NegInf m c) else Inl TypeError)"
  by (cases c) (simp_all add: in_range_def fle_bottom)

lemma series_ge_char:
  "series_cmp (cell_ge m) cs =
     (if \<forall>c\<in>set cs. numeric c then Inr (map (in_range m PosInf) cs) else Inl TypeError)"
  by (induction cs) (auto simp: cell_ge_char)

lemma series_le_char:
  "series_cmp (cell_le m) cs =
     (if \<forall>c\<in>set cs. numeric c then Inr (map (in_range NegInf m) cs) else Inl TypeError)"
  by (induction cs) (auto simp: cell_le_char)

lemma select_filter:
  "map fst (filter snd (zip xs (map2 (\<and>) (map p xs) (map q xs)))) = filter (\<lambda>x. p x \<and> q x) xs"
  by (induction xs) auto

lemma in_range_split:
  "(in_range lo PosInf c \<and> in_range NegInf hi c) = in_range lo hi c"
proof (cases "as_float c")
  case None
  then show ?thesis by (simp add: in_range_def)
next
  case (Some v)
  then show ?thesis by (cases v; cases lo; cases hi) (simp_all add: in_range_def)
qed

text \<open>
  The call as a whole: an unknown column is a \<^verbatim>\<open>KeyError\<close>, a string in the column a
  \<^verbatim>\<open>TypeError\<close>, and otherwise the rows within the bounds are kept, in their order.
\<close>

lemma df_subset_char:
  "df_subset df f lo hi =
     (if f \<notin> set (columns df) then Inl (KeyError f)
      else if \<exists>r\<in>set (rows df). \<not> numeric (cell_of r f) then Inl TypeError
      else Inr (df\<lparr>rows := filter (\<lambda>r. in_range lo hi (cell_of r f)) (rows df)\<rparr>))"
proof -
  have sel: "map fst (filter snd (zip (rows df)
               (map2 (\<and>) (map (\<lambda>r. in_range lo PosInf (cell_of r f)) (rows df))
                          (map (\<lambda>r. in_range NegInf hi (cell_of r f)) (rows df)))))
             = filter (\<lambda>r. in_range lo hi (cell_of r f)) (rows df)"
    by (simp add: select_filter in_range_split)
  show ?thesis
    unfolding df_subset_def getitem_def loc_def
    by (simp add: series_ge_char series_le_char comp_def sel)
qed

lemma in_range_boundary:
  assumes "fle a b" "fle b c"
  shows "(in_range a b x \<and> in_range b c x) = (as_float x = Some b)"
proof (cases "as_float x")
  case None
  then show ?thesis by (simp add: in_range_def)
next
  case (Some v)
  then show ?thesis using assms by (cases v; cases a; cases b; cases c) (auto simp: in_range_def)
qed

text \<open>
  Claim C8. \<^verbatim>\<open>df_subset\<close> is idempotent: calling it with a column and two bounds on
  the table that the same call returned gives that table again. Where the first call
  raises (the column is not in the schema, or it holds strings), there is no table to
  call it on again and the error is the outcome of both sides.
\<close>

theorem df_subset_idempotent:
  "and_then (df_subset df f a b) (\<lambda>t. df_subset t f a b) = df_subset df f a b"
  by (simp add: and_then_def df_subset_char)

text \<open>
  Claim C9, amended. For a column \<open>f\<close> of the schema that holds numbers only and
  bounds \<open>a \<le> b \<le> c\<close>, filtering to \<open>[a, b]\<close> and then to \<open>[b, c]\<close> gives exactly the
  rows of the table whose value of \<open>f\<close>, as the float that the comparison sees (an
  integer of an \<^verbatim>\<open>int64\<close> column after its conversion to \<^verbatim>\<open>float64\<close>), equals \<open>b\<close>, in
  their order: both bounds are inclusive. If the column holds a string, the calls
  raise \<^verbatim>\<open>TypeError\<close>.
\<close>

theorem df_subset_compose:
  assumes "f \<in> set (columns df)" "fle a b" "fle b c"
  shows "and_then (df_subset df f a b) (\<lambda>t. df_subset t f b c) =
           (if \<exists>r\<in>set (rows df). \<not> numeric (cell_of r f) then Inl TypeError
            else Inr (df\<lparr>rows := filter (\<lambda>r. as_float (cell_of r f) = Some b) (rows df)\<rparr>))"
  using assms by (simp add: and_then_def df_subset_char in_range_boundary [OF assms(2,3)] conj_commute)

theorem df_subset_compose_witness:
  "''voltage'' \<in> set (columns sample_points) \<and> fle (Num 115) (Num 230) \<and> fle (Num 230) (Num 500) \<and>
   and_then (df_subset sample_points ''voltage'' (Num 115) (Num 230))
     (\<lambda>t. df_subset t ''voltage'' (Num 230) (Num 500)) =
   Inr \<lparr>columns = [''id'', ''voltage'', ''state''],
        rows = [[(''id'', Flt (Num 2)), (''voltage'', Flt (Num 230)), (''state'', Str ''VT'')],
                [(''id'', Flt (Num 5)), (''voltage'', Flt (Num 230)), (''state'', Str ''NH'')]]\<rparr>"
  using df_subset_compose [of "''voltage''" sample_points "Num 115" "Num 230" "Num 500"]
  by (simp add: sample_points_def cell_of_def)

text \<open>
  As stated, for every attribute of the schema and with equality of the values
  themselves, the claim fails. On the integer column below, with the bounds 0, 2^53
  and infinity, the row with the value 2^53 + 1 is kept as well: it is compared as
  the float 2^53. On the column of state names the call raises
  \<^verbatim>\<open>TypeError\<close>.
\<close>

lemma bit_length_54: "bit_length 9007199254740992 = 54" "bit_length 9007199254740993 = 54"
  by (simp_all add: bit_length.simps)

theorem df_subset_compose_counterexample:
  "''id'' \<in> set (columns sample_ids) \<and> fle (Num 0) (Num 9007199254740992) \<and>
   fle (Num 9007199254740992) PosInf \<and>
   and_then (df_subset sample_ids ''id'' (Num 0) (Num 9007199254740992))
     (\<lambda>t. df_subset t ''id'' (Num 9007199254740992) PosInf) =
   Inr \<lparr>columns = [''id''],
        rows = [[(''id'', Int64 9007199254740992)], [(''id'', Int64 9007199254740993)]]\<rparr> \<and>
   ''state'' \<in> set (columns sample_points) \<and>
   df_subset sample_points ''state'' (Num 0) (Num 1) = Inl TypeError"
  by (simp add: and_then_def df_subset_char sample_ids_def sample_points_def cell_of_def
        in_range_def float64_def Let_def bit_length_54)

section \<open>Properties of \<^verbatim>\<open>get_tower_coords\<close>\<close>

lemma written_write_flush: "written (log_flush (log_write e lf)) = written lf @ [e]"
  by (simp add: written_def log_flush_def log_write_def)

lemma is_open_write_flush: "is_open (log_flush (log_write e lf)) = is_open lf"
  by (simp add: log_flush_def log_write_def)

lemma log_close_eq: "log_close lf = \<lparr>on_disk = written lf, buffered = [], is_open = False\<rparr>"
  by (simp add: log_close_def log_flush_def written_def)


text \<open>With the six columns in the frame, the frame of one line is built.\<close>

lemma points_of_ok:
  assumes "set [''ID'', ''SHAPE_Leng'', ''VOLTAGE'', ''state'', ''region'', ''OWNER''] \<subseteq> set cols"
  shows "points_of cols r (map fst vs) (map snd vs) =
           Inr (map (\<lambda>v. \<lparr>id_tp = cell_of r ''ID'', tx_line_length = cell_of r ''SHAPE_Leng'',
                          voltage = cell_of r ''VOLTAGE'', state_tp = cell_of r ''state'',
                          region_tp = cell_of r ''region'', owner = cell_of r ''OWNER'',
                          lon = fst v, lat = snd v\<rparr>) vs)"
  using assms
  by (simp add: points_of_def item_def and_then_def zip_map_map zip_same_conv_map split_def)

lemma tower_loop_char:
  assumes "set [''ID'', ''SHAPE_Leng'', ''VOLTAGE'', ''state'', ''region'', ''OWNER''] \<subseteq> set cols"
  shows "fst (tower_loop cols index gdf temp_df lf) = Inr (temp_df @ concat (map tower_rows gdf)) \<and>
         written (snd (tower_loop cols index gdf temp_df lf)) = written lf @ skip_entries index gdf"
proof (induction gdf arbitrary: index temp_df lf)
  case Nil
  show ?case by simp
next
  case (Cons rg rest)
  obtain r g where rg: "rg = (r, g)" by (cases rg)
  from assms have id: "''ID'' \<in> set cols" by simp
  show ?case
  proof (cases "geom_type g = ''LineString''")
    case True
    then show ?thesis
      using Cons [of "Suc index" "temp_df @ tower_rows rg" lf]
      by (simp add: rg tower_rows_def xy_def points_of_ok [OF assms])
  next
    case False
    then show ?thesis
      using Cons [of "Suc index" temp_df
          "log_flush (log_write (Geom_skipped (cell_of r ''ID'') index (geom_type g)) lf)"]
      by (simp add: rg tower_rows_def written_write_flush attr_def id)
  qed
qed

lemma apply_series_ok:
  "\<forall>c\<in>set cs. \<exists>g. f c = Inr g \<Longrightarrow> apply_series f cs = Inr (map (\<lambda>c. projr (f c)) cs)"
  by (induction cs) auto

text \<open>
  The run as a whole on a file that has the seven columns and whose geometry texts
  are all read: the table is the concatenation of what each row gives, it is returned
  and it is what the csv file receives, and the log, closed, holds the start line and
  the skip entries.
\<close>

lemma get_tower_coords_char:
  assumes cols: "set [''geometry'', ''ID'', ''SHAPE_Leng'', ''VOLTAGE'', ''state'', ''region'', ''OWNER'']
                   \<subseteq> set cols"
    and parse: "\<forall>r\<in>set rs. \<exists>g. geometry_of wkt_loads r = Inr g"
  shows "get_tower_coords wkt_loads t (Some \<lparr>columns = cols, rows = rs\<rparr>) =
     \<lparr>result = Inr (concat (map tower_rows (parsed wkt_loads rs))),
      tower_coordinates_csv = Some (concat (map tower_rows (parsed wkt_loads rs))),
      error_log = \<lparr>on_disk = Logging_at t # skip_entries 0 (parsed wkt_loads rs),
                   buffered = [], is_open = False\<rparr>\<rparr>"
proof -
  let ?lf = "log_write (Logging_at t) log_open"
  from cols have six: "set [''ID'', ''SHAPE_Leng'', ''VOLTAGE'', ''state'', ''region'', ''OWNER''] \<subseteq> set cols"
    and geo: "''geometry'' \<in> set cols" by simp_all
  from parse have "\<forall>c\<in>set (map (\<lambda>r. cell_of r ''geometry'') rs). \<exists>g. loads_cell wkt_loads c = Inr g"
    by (simp add: geometry_of_def)
  from apply_series_ok [OF this]
  have load: "and_then (getitem \<lparr>columns = cols, rows = rs\<rparr> ''geometry'') (apply_series (loads_cell wkt_loads)) =
          Inr (map (\<lambda>r. projr (geometry_of wkt_loads r)) rs)"
    by (simp add: getitem_def geo and_then_def geometry_of_def comp_def)
  have zp: "zip rs (map (\<lambda>r. projr (geometry_of wkt_loads r)) rs) = parsed wkt_loads rs"
    by (simp add: parsed_def zip_map2 zip_same_conv_map)
  obtain res lf where run: "tower_loop cols 0 (parsed wkt_loads rs) [] ?lf = (res, lf)"
    by (cases "tower_loop cols 0 (parsed wkt_loads rs) [] ?lf")
  from tower_loop_char [OF six, of 0 "parsed wkt_loads rs" "[]" ?lf] run
  have res: "res = Inr (concat (map tower_rows (parsed wkt_loads rs)))"
    and wr: "written lf = Logging_at t # skip_entries 0 (parsed wkt_loads rs)"
    by (simp_all add: written_def log_write_def log_open_def)
  show ?thesis
    by (simp add: get_tower_coords_def read_csv_def load zp run res log_close_eq wr)
qed

lemma skip_entries_append:
  "skip_entries index (pre @ post) = skip_entries index pre @ skip_entries (index + length pre) post"
  by (induction pre arbitrary: index) auto

lemma skip_entries_below:
  "j < index \<Longrightarrow> filter (\<lambda>e. entry_index e = Some j) (skip_entries index gdf) = []"
  by (induction gdf arbitrary: index) auto

lemma skip_entries_above:
  "index + length gdf \<le> j \<Longrightarrow> filter (\<lambda>e. entry_index e = Some j) (skip_entries index gdf) = []"
  by (induction gdf arbitrary: index) auto

text \<open>
  Claim C1. In a partitioned-line table (a file with the seven columns whose geometry
  texts are all read), a row whose geometry is a LineString with the vertices \<open>vs\<close>
  gives one tower point per vertex, in the order of the vertices: each carries the
  row's id, length, voltage, state, region and owner unchanged and the coordinates of
  its vertex. These points stand in the returned table, and in the csv file, as one
  run between the points that the rows before give and those that the rows after give.
\<close>

theorem linestring_row_gives_vertices:
  assumes cols: "set [''geometry'', ''ID'', ''SHAPE_Leng'', ''VOLTAGE'', ''state'', ''region'', ''OWNER'']
                   \<subseteq> set cols"
    and parse: "\<forall>r\<in>set (pre @ row # post). \<exists>g. geometry_of wkt_loads r = Inr g"
    and line: "geometry_of wkt_loads row = Inr (LineString vs)"
  shows "\<exists>before after.
           result (get_tower_coords wkt_loads t (Some \<lparr>columns = cols, rows = pre\<rparr>)) = Inr before \<and>
           result (get_tower_coords wkt_loads t (Some \<lparr>columns = cols, rows = post\<rparr>)) = Inr after \<and>
           result (get_tower_coords wkt_loads t (Some \<lparr>columns = cols, rows = pre @ row # post\<rparr>)) =
             Inr (before @
                  map (\<lambda>v. \<lparr>id_tp = cell_of row ''ID'', tx_line_length = cell_of row ''SHAPE_Leng'',
                            voltage = cell_of row ''VOLTAGE'', state_tp = cell_of row ''state'',
                            region_tp = cell_of row ''region'', owner = cell_of row ''OWNER'',
                            lon = fst v, lat = snd v\<rparr>) vs @
                  after) \<and>
           tower_coordinates_csv (get_tower_coords wkt_loads t (Some \<lparr>columns = cols, rows = pre @ row # post\<rparr>)) =
             Some (before @
                   map (\<lambda>v. \<lparr>id_tp = cell_of row ''ID'', tx_line_length = cell_of row ''SHAPE_Leng'',
                             voltage = cell_of row ''VOLTAGE'', state_tp = cell_of row ''state'',
                             region_tp = cell_of row ''region'', owner = cell_of row ''OWNER'',
                             lon = fst v, lat = snd v\<rparr>) vs @
                   after)"
proof -
  from parse have p1: "\<forall>r\<in>set pre. \<exists>g. geometry_of wkt_loads r = Inr g"
    and p2: "\<forall>r\<in>set post. \<exists>g. geometry_of wkt_loads r = Inr g" by simp_all
  have "tower_rows (row, LineString vs) =
          map (\<lambda>v. \<lparr>id_tp = cell_of row ''ID'', tx_line_length = cell_of row ''SHAPE_Leng'',
                    voltage = cell_of row ''VOLTAGE'', state_tp = cell_of row ''state'',
                    region_tp = cell_of row ''region'', owner = cell_of row ''OWNER'',
                    lon = fst v, lat = snd v\<rparr>) vs"
    by (simp add: tower_rows_def)
  then show ?thesis
    by (simp add: get_tower_coords_char [OF cols parse] get_tower_coords_char [OF cols p1]
          get_tower_coords_char [OF cols p2] parsed_def line)
qed

lemmas tower_defs = get_tower_coords_def read_csv_def getitem_def and_then_def cell_of_def
  points_of_def item_def attr_def xy_def log_open_def log_write_def log_flush_def log_close_def
  sample_header_def sample_line_def sample_multiline_def sample_wkt_def Let_def

theorem linestring_row_gives_vertices_witness:
  "geometry_of sample_wkt sample_line = Inr (LineString [(Num 1, Num 1), (Num 2, Num 1), (Num 2, Num 2)]) \<and>
   result (get_tower_coords sample_wkt ''12:00:00''
     (Some \<lparr>columns = sample_header, rows = [sample_multiline] @ sample_line # [sample_multiline]\<rparr>)) =
     Inr [\<lparr>id_tp = Int64 1, tx_line_length = Flt (Num 2), voltage = Flt (Num 230),
           state_tp = Str ''VT'', region_tp = Str ''NE'', owner = Str ''GMP'', lon = Num 1, lat = Num 1\<rparr>,
          \<lparr>id_tp = Int64 1, tx_line_length = Flt (Num 2), voltage = Flt (Num 230),
           state_tp = Str ''VT'', region_tp = Str ''NE'', owner = Str ''GMP'', lon = Num 2, lat = Num 1\<rparr>,
          \<lparr>id_tp = Int64 1, tx_line_length = Flt (Num 2), voltage = Flt (Num 230),
           state_tp = Str ''VT'', region_tp = Str ''NE'', owner = Str ''GMP'', lon = Num 2, lat = Num 2\<rparr>]"
proof -
  have cols: "set [''geometry'', ''ID'', ''SHAPE_Leng'', ''VOLTAGE'', ''state'', ''region'', ''OWNER'']
                \<subseteq> set sample_header"
    by (simp add: sample_header_def)
  have parse: "\<forall>r\<in>set ([sample_multiline] @ sample_line # [sample_multiline]).
                 \<exists>g. geometry_of sample_wkt r = Inr g"
    by (simp add: geometry_of_def cell_of_def sample_line_def sample_multiline_def sample_wkt_def)
  have line: "geometry_of sample_wkt sample_line =
                Inr (LineString [(Num 1, Num 1), (Num 2, Num 1), (Num 2, Num 2)])"
    by (simp add: geometry_of_def cell_of_def sample_line_def sample_wkt_def)
  have none: "result (get_tower_coords sample_wkt ''12:00:00''
                (Some \<lparr>columns = sample_header, rows = [sample_multiline]\<rparr>)) = Inr []"
    by (simp add: tower_defs)
  from linestring_row_gives_vertices [OF cols parse line, of "''12:00:00''"] none
  have "result (get_tower_coords sample_wkt ''12:00:00''
          (Some \<lparr>columns = sample_header, rows = [sample_multiline] @ sample_line # [sample_multiline]\<rparr>)) =
        Inr (map (\<lambda>v. \<lparr>id_tp = cell_of sample_line ''ID'', tx_line_length = cell_of sample_line ''SHAPE_Leng'',
                       voltage = cell_of sample_line ''VOLTAGE'', state_tp = cell_of sample_line ''state'',
                       region_tp = cell_of sample_line ''region'', owner = cell_of sample_line ''OWNER'',
                       lon = fst v, lat = snd v\<rparr>) [(Num 1, Num 1), (Num 2, Num 1), (Num 2, Num 2)])"
    by auto
  then show ?thesis
    using line by (simp add: cell_of_def sample_line_def)
qed

text \<open>
  Claim C4. In a partitioned-line table (a file with the seven columns whose geometry
  texts are all read), a row whose geometry type is not LineString gives no tower
  point: the run returns, and its table is made of the points that the rows before it
  give and of those that the rows after it give, which are processed as usual. The log
  receives exactly one skip entry with the row's positional index, and the entry
  records the row's identifier, that index and the geometry type.
\<close>

theorem other_geometry_row_skipped:
  assumes cols: "set [''geometry'', ''ID'', ''SHAPE_Leng'', ''VOLTAGE'', ''state'', ''region'', ''OWNER'']
                   \<subseteq> set cols"
    and parse: "\<forall>r\<in>set (pre @ row # post). \<exists>g. geometry_of wkt_loads r = Inr g"
    and other: "geometry_of wkt_loads row = Inr g" "geom_type g \<noteq> ''LineString''"
  shows "\<exists>before after.
           result (get_tower_coords wkt_loads t (Some \<lparr>columns = cols, rows = pre\<rparr>)) = Inr before \<and>
           result (get_tower_coords wkt_loads t (Some \<lparr>columns = cols, rows = post\<rparr>)) = Inr after \<and>
           result (get_tower_coords wkt_loads t (Some \<lparr>columns = cols, rows = pre @ row # post\<rparr>)) =
             Inr (before @ after) \<and>
           filter (\<lambda>e. entry_index e = Some (length pre))
             (on_disk (error_log (get_tower_coords wkt_loads t
                (Some \<lparr>columns = cols, rows = pre @ row # post\<rparr>)))) =
             [Geom_skipped (cell_of row ''ID'') (length pre) (geom_type g)]"
proof -
  from parse have p1: "\<forall>r\<in>set pre. \<exists>g. geometry_of wkt_loads r = Inr g"
    and p2: "\<forall>r\<in>set post. \<exists>g. geometry_of wkt_loads r = Inr g" by simp_all
  have "skip_entries 0 (parsed wkt_loads (pre @ row # post)) =
          skip_entries 0 (parsed wkt_loads pre) @
          Geom_skipped (cell_of row ''ID'') (length pre) (geom_type g) #
          skip_entries (Suc (length pre)) (parsed wkt_loads post)"
    using other by (simp add: parsed_def skip_entries_append)
  moreover have "length (parsed wkt_loads pre) = length pre" by (simp add: parsed_def)
  ultimately have "filter (\<lambda>e. entry_index e = Some (length pre))
      (skip_entries 0 (parsed wkt_loads (pre @ row # post))) =
      [Geom_skipped (cell_of row ''ID'') (length pre) (geom_type g)]"
    by (simp add: skip_entries_below skip_entries_above)
  moreover have "tower_rows (row, g) = []" using other by (simp add: tower_rows_def)
  ultimately show ?thesis
    by (simp add: get_tower_coords_char [OF cols parse] get_tower_coords_char [OF cols p1]
          get_tower_coords_char [OF cols p2] parsed_def other)
qed

theorem other_geometry_row_skipped_witness:
  "geometry_of sample_wkt sample_multiline =
     Inr (MultiLineString [[(Num 5, Num 1), (Num 6, Num 1)], [(Num 6, Num 2), (Num 6, Num 3)]]) \<and>
   map_sum id length (result (get_tower_coords sample_wkt ''12:00:00''
     (Some \<lparr>columns = sample_header, rows = [sample_line] @ sample_multiline # [sample_line]\<rparr>))) = Inr 6 \<and>
   filter (\<lambda>e. entry_index e = Some 1)
     (on_disk (error_log (get_tower_coords sample_wkt ''12:00:00''
        (Some \<lparr>columns = sample_header, rows = [sample_line] @ sample_multiline # [sample_line]\<rparr>)))) =
     [Geom_skipped (Int64 7) 1 ''MultiLineString'']"
proof -
  have cols: "set [''geometry'', ''ID'', ''SHAPE_Leng'', ''VOLTAGE'', ''state'', ''region'', ''OWNER'']
                \<subseteq> set sample_header"
    by (simp add: sample_header_def)
  have parse: "\<forall>r\<in>set ([sample_line] @ sample_multiline # [sample_line]).
                 \<exists>g. geometry_of sample_wkt r = Inr g"
    by (simp add: geometry_of_def cell_of_def sample_line_def sample_multiline_def sample_wkt_def)
  have other: "geometry_of sample_wkt sample_multiline =
     Inr (MultiLineString [[(Num 5, Num 1), (Num 6, Num 1)], [(Num 6, Num 2), (Num 6, Num 3)]])"
    by (simp add: geometry_of_def cell_of_def sample_multiline_def sample_wkt_def)
  have kind: "geom_type (MultiLineString [[(Num 5, Num 1), (Num 6, Num 1)], [(Num 6, Num 2), (Num 6, Num 3)]])
                \<noteq> ''LineString''"
    by simp
  have three: "map_sum id length (result (get_tower_coords sample_wkt ''12:00:00''
                (Some \<lparr>columns = sample_header, rows = [sample_line]\<rparr>))) = Inr 3"
    by (simp add: tower_defs)
  from other_geometry_row_skipped [OF cols parse other kind, of "''12:00:00''"] three
  show ?thesis
    using other by (auto simp: cell_of_def sample_multiline_def)
qed

section \<open>The loops of \<^verbatim>\<open>split_txlines_by_region\<close>\<close>

text \<open>
  The loop over the states of one region, when every state is accepted: it returns,
  makes one new object per state, leaves the older objects and the list \<^verbatim>\<open>tx_lines\<close>
  alone, logs one count per state, and leaves \<^verbatim>\<open>region_df\<close> bound to the newest object,
  the concatenation of the frames of the states -- unless there was no state, and
  then \<^verbatim>\<open>region_df\<close> is what it was.
\<close>

lemma states_loop_ok:
  assumes "\<forall>st\<in>set sts. valid_state US st"
  shows "\<exists>s'. states_loop US c tmp sts rl s = Returned s' \<and>
           fresh s' = fresh s + length sts \<and>
           (\<forall>a<fresh s. store s' a = store s a) \<and>
           tx_lines s' = tx_lines s \<and> tx_lines_csv s' = tx_lines_csv s \<and>
           written (logf s') =
             written (logf s) @ map (\<lambda>st. State_records st (length (state_frame US c tmp st))) sts \<and>
           is_open (logf s') = is_open (logf s) \<and>
           (sts = [] \<longrightarrow> region_df s' = region_df s) \<and>
           (sts \<noteq> [] \<longrightarrow> region_df s' = Some (fresh s' - 1) \<and>
              store s' (fresh s' - 1) = concat (rl @ map (state_frame US c tmp) sts))"
  using assms
proof (induction sts arbitrary: rl s)
  case Nil
  show ?case by simp
next
  case (Cons st rest)
  from Cons.prems obtain polygon where
    poly: "state_polygon US st = Inr polygon"
    and kind: "geom_type polygon = ''Polygon'' \<or> geom_type polygon = ''MultiPolygon''"
    by (auto simp: valid_state_def split: sum.splits)
  define temp_df where "temp_df = set_state st (rows_within c polygon tmp)"
  define s2 where "s2 = s\<lparr>logf := log_flush (log_write (State_records st (length temp_df)) (logf s)),
                          store := (store s)(fresh s := concat (rl @ [temp_df])),
                          fresh := Suc (fresh s), region_df := Some (fresh s)\<rparr>"
  have step: "states_loop US c tmp (st # rest) rl s = states_loop US c tmp rest (rl @ [temp_df]) s2"
    using poly kind by (simp add: temp_df_def s2_def new_frame_def Let_def)
  have frame: "state_frame US c tmp st = temp_df"
    by (simp add: state_frame_def poly temp_df_def)
  from Cons.prems have "\<forall>st\<in>set rest. valid_state US st" by simp
  from Cons.IH [OF this, of "rl @ [temp_df]" s2] obtain s' where
    run: "states_loop US c tmp rest (rl @ [temp_df]) s2 = Returned s'"
    and fr: "fresh s' = fresh s2 + length rest"
    and st: "\<forall>a<fresh s2. store s' a = store s2 a"
    and tx: "tx_lines s' = tx_lines s2" and csv: "tx_lines_csv s' = tx_lines_csv s2"
    and lg: "written (logf s') =
               written (logf s2) @ map (\<lambda>st. State_records st (length (state_frame US c tmp st))) rest"
    and op: "is_open (logf s') = is_open (logf s2)"
    and e: "rest = [] \<longrightarrow> region_df s' = region_df s2"
    and ne: "rest \<noteq> [] \<longrightarrow> region_df s' = Some (fresh s' - 1) \<and>
              store s' (fresh s' - 1) = concat ((rl @ [temp_df]) @ map (state_frame US c tmp) rest)"
    by blast
  have f2: "fresh s2 = Suc (fresh s)" by (simp add: s2_def)
  have "fresh s' = fresh s + length (st # rest)" using fr f2 by simp
  moreover have "\<forall>a<fresh s. store s' a = store s a"
    using st f2 by (simp add: s2_def)
  moreover have "tx_lines s' = tx_lines s" using tx by (simp add: s2_def)
  moreover have "tx_lines_csv s' = tx_lines_csv s" using csv by (simp add: s2_def)
  moreover have "written (logf s') =
      written (logf s) @ map (\<lambda>st. State_records st (length (state_frame US c tmp st))) (st # rest)"
    using lg by (simp add: s2_def written_write_flush frame)
  moreover have "is_open (logf s') = is_open (logf s)"
    using op by (simp add: s2_def is_open_write_flush)
  moreover have "region_df s' = Some (fresh s' - 1) \<and>
      store s' (fresh s' - 1) = concat (rl @ map (state_frame US c tmp) (st # rest))"
  proof (cases "rest = []")
    case True
    with e fr f2 st show ?thesis by (simp add: s2_def frame)
  next
    case False
    with ne show ?thesis by (simp add: frame)
  qed
  ultimately show ?case using step run by simp
qed

text \<open>
  The loop over the regions, when every region has a state and every state is
  accepted: the objects listed in \<^verbatim>\<open>tx_lines\<close> are, in turn, the stamped frames of the
  regions.
\<close>

lemma regions_loop_ok:
  assumes "\<forall>r\<in>set regs. snd r \<noteq> [] \<and> (\<forall>st\<in>set (snd r). valid_state US st)"
    and "\<forall>a\<in>set (tx_lines s). a < fresh s"
  shows "\<exists>s'. regions_loop US c tmp regs s = Returned s' \<and>
           map (store s') (tx_lines s') = map (store s) (tx_lines s) @ map (region_frame US c tmp) regs \<and>
           (\<forall>a\<in>set (tx_lines s'). a < fresh s') \<and>
           tx_lines_csv s' = tx_lines_csv s \<and>
           written (logf s') = written (logf s) @ concat (map (region_log US c tmp) regs) \<and>
           is_open (logf s') = is_open (logf s)"
  using assms
proof (induction regs arbitrary: s)
  case Nil
  then show ?case by simp
next
  case (Cons r rest)
  obtain rn sts where r: "r = (rn, sts)" by (cases r)
  from Cons.prems(1) r have nonempty: "sts \<noteq> []" and valid: "\<forall>st\<in>set sts. valid_state US st"
    by auto
  define s0 where "s0 = s\<lparr>logf := log_write (Region_banner rn) (logf s)\<rparr>"
  from states_loop_ok [OF valid, of c tmp "[]" s0] nonempty obtain s1 where
    run1: "states_loop US c tmp sts [] s0 = Returned s1"
    and fr: "fresh s1 = fresh s0 + length sts"
    and st: "\<forall>a<fresh s0. store s1 a = store s0 a"
    and tx: "tx_lines s1 = tx_lines s0" and csv: "tx_lines_csv s1 = tx_lines_csv s0"
    and lg: "written (logf s1) =
               written (logf s0) @ map (\<lambda>st. State_records st (length (state_frame US c tmp st))) sts"
    and op: "is_open (logf s1) = is_open (logf s0)"
    and rd: "region_df s1 = Some (fresh s1 - 1)"
    and obj: "store s1 (fresh s1 - 1) = concat (map (state_frame US c tmp) sts)"
    by auto
  define a where "a = fresh s1 - 1"
  define s2 where "s2 = s1\<lparr>store := (store s1)(a := set_region rn (store s1 a)),
                           tx_lines := tx_lines s1 @ [a]\<rparr>"
  have step: "regions_loop US c tmp (r # rest) s = regions_loop US c tmp rest s2"
    using run1 rd by (simp add: r s0_def [symmetric] a_def s2_def)
  from nonempty obtain n where "length sts = Suc n" by (cases sts) auto
  with fr have a_ge: "fresh s \<le> a" and a_lt: "a < fresh s1"
    by (simp_all add: a_def s0_def)
  have old: "\<forall>b\<in>set (tx_lines s). store s2 b = store s b"
  proof
    fix b assume "b \<in> set (tx_lines s)"
    with Cons.prems(2) have "b < fresh s" by simp
    with a_ge st show "store s2 b = store s b" by (simp add: s2_def s0_def)
  qed
  have new: "store s2 a = region_frame US c tmp r"
    using obj by (simp add: s2_def a_def region_frame_def r)
  have txs: "tx_lines s2 = tx_lines s @ [a]"
    using tx by (simp add: s2_def s0_def)
  have "map (store s2) (tx_lines s) = map (store s) (tx_lines s)"
    using old by simp
  then have view: "map (store s2) (tx_lines s2) = map (store s) (tx_lines s) @ [region_frame US c tmp r]"
    by (simp add: txs new)
  have inv: "\<forall>b\<in>set (tx_lines s2). b < fresh s2"
  proof
    fix b assume "b \<in> set (tx_lines s2)"
    then have "b \<in> set (tx_lines s) \<or> b = a" by (auto simp: txs)
    moreover have "fresh s2 = fresh s1" by (simp add: s2_def)
    ultimately show "b < fresh s2" using Cons.prems(2) a_ge a_lt by auto
  qed
  from Cons.prems(1) have "\<forall>r\<in>set rest. snd r \<noteq> [] \<and> (\<forall>st\<in>set (snd r). valid_state US st)"
    by simp
  from Cons.IH [OF this inv] obtain s' where
    run: "regions_loop US c tmp rest s2 = Returned s'"
    and v: "map (store s') (tx_lines s') = map (store s2) (tx_lines s2) @ map (region_frame US c tmp) rest"
    and i': "\<forall>a\<in>set (tx_lines s'). a < fresh s'"
    and csv': "tx_lines_csv s' = tx_lines_csv s2"
    and lg': "written (logf s') = written (logf s2) @ concat (map (region_log US c tmp) rest)"
    and op': "is_open (logf s') = is_open (logf s2)"
    by blast
  have "written (logf s2) = written (logf s) @ region_log US c tmp r"
    using lg by (simp add: s2_def s0_def region_log_def r written_def log_write_def)
  with lg' have "written (logf s') = written (logf s) @ concat (map (region_log US c tmp) (r # rest))"
    by simp
  moreover have "tx_lines_csv s' = tx_lines_csv s" using csv' csv by (simp add: s2_def s0_def)
  moreover have "is_open (logf s') = is_open (logf s)"
    using op' op by (simp add: s2_def s0_def log_write_def)
  moreover have "map (store s') (tx_lines s') =
                   map (store s) (tx_lines s) @ map (region_frame US c tmp) (r # rest)"
    using v view by simp
  ultimately show ?case using step run i' by simp
qed

text \<open>
  The whole run under these conditions: it returns, the table is the concatenation of
  the frames of the regions, the csv file receives its rows, and the log, closed,
  holds the start line and the lines of every region.
\<close>

lemma split_ok:
  assumes "\<forall>r\<in>set (zip region_names region_states). snd r \<noteq> [] \<and> (\<forall>st\<in>set (snd r). valid_state US st)"
    and "zip region_names region_states \<noteq> []"
  shows "\<exists>s. split_txlines_by_region US c t tmp_gdf region_names region_states = Returned s \<and>
           table_of s = concat (map (region_frame US c (enumerate 0 tmp_gdf)) (zip region_names region_states)) \<and>
           tx_lines_csv s = Some (map snd (table_of s)) \<and>
           logf s = \<lparr>on_disk = Logging_at t #
                        concat (map (region_log US c (enumerate 0 tmp_gdf)) (zip region_names region_states)),
                     buffered = [], is_open = False\<rparr>"
proof -
  have "\<forall>a\<in>set (tx_lines (start_state t)). a < fresh (start_state t)"
    by (simp add: start_state_def)
  from regions_loop_ok [OF assms(1) this, of c "enumerate 0 tmp_gdf"] obtain s' where
    run: "regions_loop US c (enumerate 0 tmp_gdf) (zip region_names region_states) (start_state t) = Returned s'"
    and v: "map (store s') (tx_lines s') =
              map (region_frame US c (enumerate 0 tmp_gdf)) (zip region_names region_states)"
    and lg: "written (logf s') = Logging_at t #
               concat (map (region_log US c (enumerate 0 tmp_gdf)) (zip region_names region_states))"
    by (auto simp: start_state_def written_def log_write_def log_open_def)
  from v assms(2) have "tx_lines s' \<noteq> []" by auto
  then have cf: "concat_frames s' = Inr (concat (map (store s') (tx_lines s')))"
    by (cases "tx_lines s'") (simp_all add: concat_frames_def)
  show ?thesis
    by (simp add: split_txlines_by_region_def run cf table_of_def v log_close_eq lg)
qed

section \<open>The rows of one input line in the table\<close>

lemma filter_enumerate:
  "filter (\<lambda>r. fst r = i) (enumerate n xs) =
     (if n \<le> i \<and> i < n + length xs then [(i, xs ! (i - n))] else [])"
proof (induction xs arbitrary: n)
  case Nil
  show ?case by simp
next
  case (Cons x xs)
  show ?case using Cons [of "Suc n"] by (auto simp: Suc_diff_le)
qed

lemma rows_within_label:
  "filter (\<lambda>r. fst r = i) (rows_within c area tmp) =
     rows_within c area (filter (\<lambda>r. fst r = i) tmp)"
  by (induction tmp) (auto simp: rows_within_def)

lemma set_state_label:
  "filter (\<lambda>r. fst r = i) (set_state st df) = set_state st (filter (\<lambda>r. fst r = i) df)"
  by (induction df) (auto simp: set_state_def)

lemma set_region_label:
  "filter (\<lambda>r. fst r = i) (set_region rn df) = set_region rn (filter (\<lambda>r. fst r = i) df)"
  by (induction df) (auto simp: set_region_def)

lemma state_frame_rows:
  assumes "i < length tmp"
  shows "filter (\<lambda>r. fst r = i) (state_frame US c (enumerate 0 tmp) st) =
           (if state_contains US c st (geometry (tmp ! i))
            then [(i, (as_row (tmp ! i))\<lparr>state := Str st\<rparr>)] else [])"
proof (cases "state_polygon US st")
  case (Inl e)
  then show ?thesis by (simp add: state_frame_def state_contains_def)
next
  case (Inr area)
  have "filter (\<lambda>r. fst r = i) (state_frame US c (enumerate 0 tmp) st) =
          set_state st (rows_within c area (filter (\<lambda>r. fst r = i) (enumerate 0 tmp)))"
    by (simp add: state_frame_def Inr set_state_label rows_within_label)
  also have "filter (\<lambda>r. fst r = i) (enumerate 0 tmp) = [(i, tmp ! i)]"
    using assms by (simp add: filter_enumerate)
  finally show ?thesis
    by (simp add: state_contains_def Inr rows_within_def set_state_def)
qed

lemma region_frame_rows:
  assumes "i < length tmp"
  shows "filter (\<lambda>r. fst r = i) (region_frame US c (enumerate 0 tmp) (rn, sts)) =
           map (\<lambda>st. (i, (as_row (tmp ! i))\<lparr>state := Str st, region := Str rn\<rparr>))
             (filter (\<lambda>st. state_contains US c st (geometry (tmp ! i))) sts)"
proof -
  have "filter (\<lambda>r. fst r = i) (concat (map (state_frame US c (enumerate 0 tmp)) sts)) =
          map (\<lambda>st. (i, (as_row (tmp ! i))\<lparr>state := Str st\<rparr>))
            (filter (\<lambda>st. state_contains US c st (geometry (tmp ! i))) sts)"
    by (induction sts) (simp_all add: state_frame_rows [OF assms])
  then show ?thesis
    by (simp add: region_frame_def set_region_label) (simp add: set_region_def comp_def)
qed

lemma region_frame_stamp:
  "r \<in> set (region_frame US c tmp reg) \<Longrightarrow> region (snd r) = Str (fst reg)"
  by (auto simp: region_frame_def set_region_def)

lemma rows_for_region:
  "rows_for i (fst reg) (region_frame US c tmp reg) = filter (\<lambda>r. fst r = i) (region_frame US c tmp reg)"
  unfolding rows_for_def by (rule filter_cong) (auto dest: region_frame_stamp)

lemma rows_for_other:
  "rn \<noteq> fst reg \<Longrightarrow> rows_for i rn (region_frame US c tmp reg) = []"
  unfolding rows_for_def by (auto simp: filter_empty_conv dest: region_frame_stamp)

lemma rows_for_append:
  "rows_for i rn (xs @ ys) = rows_for i rn xs @ rows_for i rn ys"
  by (simp add: rows_for_def)

lemma rows_for_others:
  "\<forall>y\<in>set regs. rn \<noteq> fst y \<Longrightarrow> rows_for i rn (concat (map (region_frame US c tmp) regs)) = []"
  by (induction regs) (simp_all add: rows_for_append rows_for_other, simp add: rows_for_def)

lemma rows_for_concat:
  assumes "distinct (map fst regs)" "reg \<in> set regs"
  shows "rows_for i (fst reg) (concat (map (region_frame US c tmp) regs)) =
           filter (\<lambda>r. fst r = i) (region_frame US c tmp reg)"
  using assms
proof (induction regs)
  case Nil
  then show ?case by simp
next
  case (Cons x regs)
  show ?case
  proof (cases "reg = x")
    case True
    with Cons.prems have "\<forall>y\<in>set regs. fst reg \<noteq> fst y" by auto
    then have "rows_for i (fst reg) (concat (map (region_frame US c tmp) regs)) = []"
      by (rule rows_for_others)
    then show ?thesis using True by (simp add: rows_for_append rows_for_region)
  next
    case False
    with Cons.prems have mem: "reg \<in> set regs" by simp
    from Cons.prems have "fst x \<notin> fst ` set regs" by simp
    with mem have ne: "fst reg \<noteq> fst x" by (metis imageI)
    from Cons.prems have "distinct (map fst regs)" by simp
    from Cons.IH [OF this mem] ne show ?thesis by (simp add: rows_for_append rows_for_other)
  qed
qed

lemma state_frame_length:
  "length (state_frame US c (enumerate 0 tmp) st) =
     length (filter (\<lambda>f. state_contains US c st (geometry f)) tmp)"
proof -
  have "\<And>area n. length (rows_within c area (enumerate n tmp)) =
          length (filter (\<lambda>f. c area (geometry f)) tmp)"
    by (induction tmp) (simp_all add: rows_within_def)
  then show ?thesis
    by (simp add: state_frame_def state_contains_def set_state_def split: sum.splits)
qed

section \<open>Runs that raise\<close>

text \<open>
  What the loops raise, that a state which is not accepted makes them raise, what they
  leave untouched on every path, and what they can have written to the log.
\<close>

lemma states_loop_kinds:
  "states_loop US c tmp sts rl s = Raised e s' \<Longrightarrow>
     e = IndexError \<or> (\<exists>k. e = ValueError_invalid_polygon k \<and> k \<noteq> ''Polygon'' \<and> k \<noteq> ''MultiPolygon'')"
proof (induction sts arbitrary: rl s)
  case Nil
  then show ?case by simp
next
  case (Cons st rest)
  show ?case
  proof (cases "state_polygon US st")
    case (Inl x)
    with Cons.prems show ?thesis by (simp add: state_polygon_def split: list.splits)
  next
    case (Inr area)
    show ?thesis
    proof (cases "geom_type area = ''Polygon'' \<or> geom_type area = ''MultiPolygon''")
      case True
      with Cons.prems Inr show ?thesis
        by (auto simp: Let_def new_frame_def dest: Cons.IH)
    next
      case False
      with Cons.prems Inr show ?thesis by auto
    qed
  qed
qed

lemma states_loop_bad:
  "st \<in> set sts \<Longrightarrow> \<not> valid_state US st \<Longrightarrow> raised (states_loop US c tmp sts rl s) \<noteq> None"
proof (induction sts arbitrary: rl s)
  case Nil
  then show ?case by simp
next
  case (Cons x rest)
  show ?case
  proof (cases "valid_state US x")
    case True
    with Cons.prems have "st \<in> set rest" by auto
    from Cons.IH [OF this Cons.prems(2)] True show ?thesis
      by (auto simp: valid_state_def Let_def new_frame_def split: sum.splits)
  next
    case False
    then show ?thesis by (auto simp: valid_state_def split: sum.splits)
  qed
qed

lemma states_loop_keeps:
  "tx_lines_csv (final_state (states_loop US c tmp sts rl s)) = tx_lines_csv s \<and>
   is_open (logf (final_state (states_loop US c tmp sts rl s))) = is_open (logf s) \<and>
   tx_lines (final_state (states_loop US c tmp sts rl s)) = tx_lines s"
proof (induction sts arbitrary: rl s)
  case Nil
  show ?case by simp
next
  case (Cons st rest)
  show ?case
    by (cases "state_polygon US st")
       (simp_all add: Let_def new_frame_def Cons.IH is_open_write_flush)
qed

lemma states_loop_log:
  "e \<in> set (written (logf (final_state (states_loop US c tmp sts rl s)))) \<Longrightarrow>
     e \<in> set (written (logf s)) \<or> (\<exists>st n. e = State_records st n \<and> valid_state US st)"
proof (induction sts arbitrary: rl s)
  case Nil
  then show ?case by simp
next
  case (Cons st rest)
  show ?case
  proof (cases "valid_state US st")
    case True
    then obtain area where area: "state_polygon US st = Inr area"
      "geom_type area = ''Polygon'' \<or> geom_type area = ''MultiPolygon''"
      by (auto simp: valid_state_def split: sum.splits)
    from Cons.prems area have
      "e \<in> set (written (logf (final_state (states_loop US c tmp rest
          (rl @ [set_state st (rows_within c area tmp)])
          (s\<lparr>logf := log_flush (log_write (State_records st
                 (length (set_state st (rows_within c area tmp)))) (logf s)),
             store := (store s)(fresh s := concat (rl @ [set_state st (rows_within c area tmp)])),
             fresh := Suc (fresh s), region_df := Some (fresh s)\<rparr>)))))"
      by (simp add: Let_def new_frame_def)
    from Cons.IH [OF this] True show ?thesis
      by (auto simp: written_write_flush)
  next
    case False
    with Cons.prems show ?thesis by (auto simp: valid_state_def split: sum.splits)
  qed
qed

lemma states_loop_bound:
  "states_loop US c tmp sts rl s = Returned s' \<Longrightarrow> region_df s' = None \<Longrightarrow>
     sts = [] \<and> region_df s = None"
proof (induction sts arbitrary: rl s)
  case Nil
  then show ?case by simp
next
  case (Cons st rest)
  from Cons.prems(1) obtain area where area: "state_polygon US st = Inr area"
      "geom_type area = ''Polygon'' \<or> geom_type area = ''MultiPolygon''"
    by (auto split: sum.splits if_splits)
  with Cons.prems(1) have
    "states_loop US c tmp rest (rl @ [set_state st (rows_within c area tmp)])
          (s\<lparr>logf := log_flush (log_write (State_records st
                 (length (set_state st (rows_within c area tmp)))) (logf s)),
             store := (store s)(fresh s := concat (rl @ [set_state st (rows_within c area tmp)])),
             fresh := Suc (fresh s), region_df := Some (fresh s)\<rparr>) = Returned s'"
    by (simp add: Let_def new_frame_def)
  from Cons.IH [OF this Cons.prems(2)] show ?case by simp
qed


lemma regions_loop_kinds:
  "regions_loop US c tmp regs s = Raised e s' \<Longrightarrow>
     e = IndexError \<or>
     (\<exists>k. e = ValueError_invalid_polygon k \<and> k \<noteq> ''Polygon'' \<and> k \<noteq> ''MultiPolygon'') \<or>
     (e = UnboundLocalError ''region_df'' \<and> region_df s = None \<and> (\<exists>r\<in>set regs. snd r = []))"
proof (induction regs arbitrary: s)
  case Nil
  then show ?case by simp
next
  case (Cons r rest)
  obtain rn sts where r: "r = (rn, sts)" by (cases r)
  define s0 where "s0 = s\<lparr>logf := log_write (Region_banner rn) (logf s)\<rparr>"
  show ?case
  proof (cases "states_loop US c tmp sts [] s0")
    case (Raised e1 s1)
    with Cons.prems r have "e = e1" by (simp add: s0_def)
    with states_loop_kinds [OF Raised] show ?thesis by blast
  next
    case (Returned s1)
    show ?thesis
    proof (cases "region_df s1")
      case None
      with Cons.prems r Returned have "e = UnboundLocalError ''region_df''" by (simp add: s0_def)
      moreover from states_loop_bound [OF Returned None] have "sts = []" "region_df s = None"
        by (simp_all add: s0_def)
      ultimately show ?thesis using r by simp
    next
      case (Some a)
      with Cons.prems r Returned have
        "regions_loop US c tmp rest
           (s1\<lparr>store := (store s1)(a := set_region rn (store s1 a)), tx_lines := tx_lines s1 @ [a]\<rparr>)
         = Raised e s'"
        by (simp add: s0_def)
      from Cons.IH [OF this] Some show ?thesis by auto
    qed
  qed
qed

lemma regions_loop_bad:
  "r \<in> set regs \<Longrightarrow> st \<in> set (snd r) \<Longrightarrow> \<not> valid_state US st \<Longrightarrow>
     raised (regions_loop US c tmp regs s) \<noteq> None"
proof (induction regs arbitrary: s)
  case Nil
  then show ?case by simp
next
  case (Cons x rest)
  obtain rn sts where x: "x = (rn, sts)" by (cases x)
  define s0 where "s0 = s\<lparr>logf := log_write (Region_banner rn) (logf s)\<rparr>"
  show ?case
  proof (cases "states_loop US c tmp sts [] s0")
    case (Raised e1 s1)
    then show ?thesis by (simp add: x s0_def)
  next
    case (Returned s1)
    then have "raised (states_loop US c tmp sts [] s0) = None" by simp
    with states_loop_bad [OF _ Cons.prems(3), of sts c tmp "[]" s0] have "st \<notin> set sts" by blast
    with Cons.prems x have mem: "r \<in> set rest" by auto
    show ?thesis
    proof (cases "region_df s1")
      case None
      with Returned show ?thesis by (simp add: x s0_def)
    next
      case (Some a)
      with Returned Cons.IH [OF mem Cons.prems(2,3)] show ?thesis by (simp add: x s0_def)
    qed
  qed
qed

lemma regions_loop_keeps:
  "tx_lines_csv (final_state (regions_loop US c tmp regs s)) = tx_lines_csv s \<and>
   is_open (logf (final_state (regions_loop US c tmp regs s))) = is_open (logf s)"
proof (induction regs arbitrary: s)
  case Nil
  show ?case by simp
next
  case (Cons x rest)
  obtain rn sts where x: "x = (rn, sts)" by (cases x)
  define s0 where "s0 = s\<lparr>logf := log_write (Region_banner rn) (logf s)\<rparr>"
  have keep: "tx_lines_csv (final_state (states_loop US c tmp sts [] s0)) = tx_lines_csv s"
    "is_open (logf (final_state (states_loop US c tmp sts [] s0))) = is_open (logf s)"
    using states_loop_keeps [of US c tmp sts "[]" s0] by (simp_all add: s0_def log_write_def)
  show ?case
  proof (cases "states_loop US c tmp sts [] s0")
    case (Raised e1 s1)
    with keep show ?thesis by (simp add: x s0_def)
  next
    case (Returned s1)
    with keep show ?thesis
      by (cases "region_df s1") (simp_all add: x s0_def Cons.IH)
  qed
qed

lemma regions_loop_log:
  "e \<in> set (written (logf (final_state (regions_loop US c tmp regs s)))) \<Longrightarrow>
     e \<in> set (written (logf s)) \<or> (\<exists>rn. e = Region_banner rn) \<or>
     (\<exists>st n. e = State_records st n \<and> valid_state US st)"
proof (induction regs arbitrary: s)
  case Nil
  then show ?case by simp
next
  case (Cons x rest)
  obtain rn sts where x: "x = (rn, sts)" by (cases x)
  define s0 where "s0 = s\<lparr>logf := log_write (Region_banner rn) (logf s)\<rparr>"
  have w0: "written (logf s0) = written (logf s) @ [Region_banner rn]"
    by (simp add: s0_def written_def log_write_def)
  have inner: "\<And>e. e \<in> set (written (logf (final_state (states_loop US c tmp sts [] s0)))) \<Longrightarrow>
      e \<in> set (written (logf s)) \<or> (\<exists>rn. e = Region_banner rn) \<or>
      (\<exists>st n. e = State_records st n \<and> valid_state US st)"
    using states_loop_log [of _ US c tmp sts "[]" s0] by (auto simp: w0)
  show ?case
  proof (cases "states_loop US c tmp sts [] s0")
    case (Raised e1 s1)
    with Cons.prems inner [of e] show ?thesis by (simp add: x s0_def)
  next
    case (Returned s1)
    show ?thesis
    proof (cases "region_df s1")
      case None
      with Cons.prems Returned inner [of e] show ?thesis by (simp add: x s0_def)
    next
      case (Some a)
      with Cons.prems Returned have
        "e \<in> set (written (logf (final_state (regions_loop US c tmp rest
           (s1\<lparr>store := (store s1)(a := set_region rn (store s1 a)), tx_lines := tx_lines s1 @ [a]\<rparr>)))))"
        by (simp add: x s0_def)
      from Cons.IH [OF this] inner [of e] Returned show ?thesis by auto
    qed
  qed
qed

text \<open>
  Where no region in front is without states and every state in front is accepted,
  the first state that is not accepted makes the run raise at once: with the
  \<^verbatim>\<open>IndexError\<close> of the empty selection or the \<^verbatim>\<open>ValueError\<close> for its geometry type,
  with the log holding what the regions and states in front wrote and nothing after,
  with the handle open and without a csv file.
\<close>

lemma states_loop_append:
  assumes "\<forall>st\<in>set ps. valid_state US st"
  shows "states_loop US c tmp (ps @ rest) rl s =
           states_loop US c tmp rest (rl @ map (state_frame US c tmp) ps)
             (final_state (states_loop US c tmp ps rl s))"
  using assms
proof (induction ps arbitrary: rl s)
  case Nil
  show ?case by simp
next
  case (Cons st ps)
  from Cons.prems obtain area where area: "state_polygon US st = Inr area"
    and kind: "geom_type area = ''Polygon'' \<or> geom_type area = ''MultiPolygon''"
    by (auto simp: valid_state_def split: sum.splits)
  have frame: "state_frame US c tmp st = set_state st (rows_within c area tmp)"
    by (simp add: state_frame_def area)
  from Cons.prems have rest: "\<forall>st\<in>set ps. valid_state US st" by simp
  show ?case
    using area kind by (simp add: Let_def new_frame_def Cons.IH [OF rest] frame)
qed

lemma states_loop_stops:
  assumes valid: "\<forall>s\<in>set ps. valid_state US s" and bad: "\<not> valid_state US st"
  shows "\<exists>s'. states_loop US c tmp (ps @ st # qs) rl s =
             Raised (case state_polygon US st of
                       Inl e \<Rightarrow> e | Inr g \<Rightarrow> ValueError_invalid_polygon (geom_type g)) s' \<and>
           tx_lines_csv s' = tx_lines_csv s \<and> is_open (logf s') = is_open (logf s) \<and>
           written (logf s') =
             written (logf s) @ map (\<lambda>s. State_records s (length (state_frame US c tmp s))) ps"
proof -
  from states_loop_ok [OF valid, of c tmp rl s] obtain s1 where
    run: "states_loop US c tmp ps rl s = Returned s1"
    and csv: "tx_lines_csv s1 = tx_lines_csv s"
    and lg: "written (logf s1) =
               written (logf s) @ map (\<lambda>s. State_records s (length (state_frame US c tmp s))) ps"
    and op: "is_open (logf s1) = is_open (logf s)"
    by blast
  have "states_loop US c tmp (st # qs) (rl @ map (state_frame US c tmp) ps) s1 =
          Raised (case state_polygon US st of
                    Inl e \<Rightarrow> e | Inr g \<Rightarrow> ValueError_invalid_polygon (geom_type g)) s1"
    using bad by (auto simp: valid_state_def split: sum.splits)
  with states_loop_append [OF valid, of c tmp "st # qs" rl s] run csv lg op
  show ?thesis by simp
qed

lemma regions_loop_append:
  assumes "\<forall>r\<in>set pre. snd r \<noteq> [] \<and> (\<forall>st\<in>set (snd r). valid_state US st)"
    and "\<forall>a\<in>set (tx_lines s). a < fresh s"
  shows "regions_loop US c tmp (pre @ rest) s =
           regions_loop US c tmp rest (final_state (regions_loop US c tmp pre s))"
  using assms
proof (induction pre arbitrary: s)
  case Nil
  show ?case by simp
next
  case (Cons r pre)
  obtain rn sts where r: "r = (rn, sts)" by (cases r)
  from Cons.prems(1) r have nonempty: "sts \<noteq> []" and valid: "\<forall>st\<in>set sts. valid_state US st"
    by auto
  define s0 where "s0 = s\<lparr>logf := log_write (Region_banner rn) (logf s)\<rparr>"
  from states_loop_ok [OF valid, of c tmp "[]" s0] nonempty obtain s1 where
    run1: "states_loop US c tmp sts [] s0 = Returned s1"
    and fr: "fresh s1 = fresh s0 + length sts"
    and tx: "tx_lines s1 = tx_lines s0"
    and rd: "region_df s1 = Some (fresh s1 - 1)"
    by auto
  define a where "a = fresh s1 - 1"
  define s2 where "s2 = s1\<lparr>store := (store s1)(a := set_region rn (store s1 a)),
                           tx_lines := tx_lines s1 @ [a]\<rparr>"
  have step: "\<And>more. regions_loop US c tmp (r # more) s = regions_loop US c tmp more s2"
    using run1 rd by (simp add: r s0_def [symmetric] a_def s2_def)
  from nonempty obtain n where "length sts = Suc n" by (cases sts) auto
  with fr have a_lt: "a < fresh s1" and a_ge: "fresh s \<le> a" by (simp_all add: a_def s0_def)
  have inv: "\<forall>b\<in>set (tx_lines s2). b < fresh s2"
  proof
    fix b assume "b \<in> set (tx_lines s2)"
    then have "b \<in> set (tx_lines s) \<or> b = a" using tx by (auto simp: s2_def s0_def)
    moreover have "fresh s2 = fresh s1" by (simp add: s2_def)
    ultimately show "b < fresh s2" using Cons.prems(2) a_ge a_lt by auto
  qed
  from Cons.prems(1) have "\<forall>r\<in>set pre. snd r \<noteq> [] \<and> (\<forall>st\<in>set (snd r). valid_state US st)"
    by simp
  from Cons.IH [OF this inv] step [of "pre @ rest"] step [of pre] show ?case by simp
qed

lemma invalid_state_raises_at_once:
  assumes regs: "zip region_names region_states = pre @ (rn, ps @ st # qs) # post"
    and pre: "\<forall>r\<in>set pre. snd r \<noteq> [] \<and> (\<forall>s\<in>set (snd r). valid_state US_STATES s)"
    and ps: "\<forall>s\<in>set ps. valid_state US_STATES s"
    and bad: "\<not> valid_state US_STATES st"
  shows "\<exists>s. split_txlines_by_region US_STATES contains t tmp_gdf region_names region_states =
             Raised (case state_polygon US_STATES st of
                       Inl e \<Rightarrow> e | Inr g \<Rightarrow> ValueError_invalid_polygon (geom_type g)) s \<and>
           tx_lines_csv s = None \<and> is_open (logf s) \<and>
           written (logf s) =
             Logging_at t # concat (map (region_log US_STATES contains (enumerate 0 tmp_gdf)) pre) @
             Region_banner rn #
             map (\<lambda>s. State_records s (length (state_frame US_STATES contains (enumerate 0 tmp_gdf) s))) ps"
proof -
  let ?tmp = "enumerate 0 tmp_gdf"
  have inv: "\<forall>a\<in>set (tx_lines (start_state t)). a < fresh (start_state t)"
    by (simp add: start_state_def)
  from regions_loop_ok [OF pre inv, of contains ?tmp] obtain s1 where
    run1: "regions_loop US_STATES contains ?tmp pre (start_state t) = Returned s1"
    and csv1: "tx_lines_csv s1 = tx_lines_csv (start_state t)"
    and lg1: "written (logf s1) =
                written (logf (start_state t)) @ concat (map (region_log US_STATES contains ?tmp) pre)"
    and op1: "is_open (logf s1) = is_open (logf (start_state t))"
    by blast
  define s0 where "s0 = s1\<lparr>logf := log_write (Region_banner rn) (logf s1)\<rparr>"
  from states_loop_stops [OF ps bad, of contains ?tmp qs "[]" s0] obtain s2 where
    run2: "states_loop US_STATES contains ?tmp (ps @ st # qs) [] s0 =
             Raised (case state_polygon US_STATES st of
                       Inl e \<Rightarrow> e | Inr g \<Rightarrow> ValueError_invalid_polygon (geom_type g)) s2"
    and csv2: "tx_lines_csv s2 = tx_lines_csv s0"
    and op2: "is_open (logf s2) = is_open (logf s0)"
    and lg2: "written (logf s2) =
                written (logf s0) @
                map (\<lambda>s. State_records s (length (state_frame US_STATES contains ?tmp s))) ps"
    by blast
  have loop: "regions_loop US_STATES contains ?tmp (zip region_names region_states) (start_state t) =
                Raised (case state_polygon US_STATES st of
                          Inl e \<Rightarrow> e | Inr g \<Rightarrow> ValueError_invalid_polygon (geom_type g)) s2"
    using regions_loop_append [OF pre inv, of contains ?tmp "(rn, ps @ st # qs) # post"] run1 run2
    by (simp add: regs s0_def)
  have "tx_lines_csv s2 = None" using csv2 csv1 by (simp add: s0_def start_state_def)
  moreover have "is_open (logf s2)"
    using op2 op1 by (simp add: s0_def start_state_def log_write_def log_open_def)
  moreover have "written (logf s2) =
             Logging_at t # concat (map (region_log US_STATES contains ?tmp) pre) @
             Region_banner rn #
             map (\<lambda>s. State_records s (length (state_frame US_STATES contains ?tmp s))) ps"
    using lg2 lg1 by (simp add: s0_def start_state_def written_def log_write_def log_open_def)
  ultimately show ?thesis
    by (simp add: split_txlines_by_region_def loop)
qed

section \<open>Properties of \<^verbatim>\<open>split_txlines_by_region\<close>\<close>

lemmas sample_defs = sample_states_def sample_vt_def sample_nh_def line_vt_def line_both_def
  line_out_def sample_contains_def

lemmas run_defs = split_txlines_by_region_def start_state_def new_frame_def concat_frames_def
  state_polygon_def rows_within_def set_state_def set_region_def as_row_def
  log_open_def log_write_def log_flush_def log_close_def Let_def enumerate_eq_zip

text \<open>
  A run in which every declared state is accepted, every region has a state and the
  region names differ: it returns; the rows of the table that come from input line
  \<open>i\<close> and carry the name of a region are one per state of that region whose area
  contains the line, in the order of the region's list; the csv file receives the
  table; the log, closed, holds for every region its banner and for every state of it
  the number of input lines the state's area contains.
\<close>

lemma split_rows:
  assumes ok: "\<forall>r\<in>set (zip region_names region_states).
                 snd r \<noteq> [] \<and> (\<forall>st\<in>set (snd r). valid_state US_STATES st)"
    and names: "distinct (map fst (zip region_names region_states))"
    and reg: "(region_name, region_state) \<in> set (zip region_names region_states)"
    and i: "i < length tmp_gdf"
  shows "\<exists>s. split_txlines_by_region US_STATES contains t tmp_gdf region_names region_states = Returned s \<and>
           rows_for i region_name (table_of s) =
             map (\<lambda>st. (i, (as_row (tmp_gdf ! i))\<lparr>state := Str st, region := Str region_name\<rparr>))
               (filter (\<lambda>st. state_contains US_STATES contains st (geometry (tmp_gdf ! i))) region_state) \<and>
           tx_lines_csv s = Some (map snd (table_of s)) \<and>
           logf s = \<lparr>on_disk = Logging_at t # concat (map (\<lambda>r. Region_banner (fst r) #
                        map (\<lambda>st. State_records st
                               (length (filter (\<lambda>f. state_contains US_STATES contains st (geometry f)) tmp_gdf)))
                          (snd r)) (zip region_names region_states)),
                     buffered = [], is_open = False\<rparr>"
proof -
  from reg have ne: "zip region_names region_states \<noteq> []" by auto
  from split_ok [OF ok ne, of contains t tmp_gdf] obtain s where
    run: "split_txlines_by_region US_STATES contains t tmp_gdf region_names region_states = Returned s"
    and tab: "table_of s = concat (map (region_frame US_STATES contains (enumerate 0 tmp_gdf))
                (zip region_names region_states))"
    and csv: "tx_lines_csv s = Some (map snd (table_of s))"
    and lg: "logf s = \<lparr>on_disk = Logging_at t #
               concat (map (region_log US_STATES contains (enumerate 0 tmp_gdf)) (zip region_names region_states)),
               buffered = [], is_open = False\<rparr>"
    by blast
  have "rows_for i region_name (table_of s) =
          filter (\<lambda>r. fst r = i) (region_frame US_STATES contains (enumerate 0 tmp_gdf) (region_name, region_state))"
    using rows_for_concat [OF names reg, of i US_STATES contains "enumerate 0 tmp_gdf"] tab by simp
  then have rows: "rows_for i region_name (table_of s) =
             map (\<lambda>st. (i, (as_row (tmp_gdf ! i))\<lparr>state := Str st, region := Str region_name\<rparr>))
               (filter (\<lambda>st. state_contains US_STATES contains st (geometry (tmp_gdf ! i))) region_state)"
    by (simp add: region_frame_rows [OF i])
  have "region_log US_STATES contains (enumerate 0 tmp_gdf) =
          (\<lambda>r. Region_banner (fst r) #
                        map (\<lambda>st. State_records st
                               (length (filter (\<lambda>f. state_contains US_STATES contains st (geometry f)) tmp_gdf)))
                          (snd r))"
    by (rule ext) (simp add: region_log_def state_frame_length)
  with lg run rows csv show ?thesis by simp
qed

text \<open>
  Claim C2, amended. Provided every declared state resolves to a Polygon or
  MultiPolygon, every region lists at least one state and the region names are
  distinct: for an input line that exactly one entry of a region's state list
  contains, the run returns and the table has exactly one row for that line under
  that region's name, stamped with that state's name; the csv file receives the table.
\<close>

theorem one_state_one_row:
  assumes ok: "\<forall>r\<in>set (zip region_names region_states).
                 snd r \<noteq> [] \<and> (\<forall>st\<in>set (snd r). valid_state US_STATES st)"
    and names: "distinct (map fst (zip region_names region_states))"
    and reg: "(region_name, region_state) \<in> set (zip region_names region_states)"
    and i: "i < length tmp_gdf"
    and one: "filter (\<lambda>st. state_contains US_STATES contains st (geometry (tmp_gdf ! i))) region_state = [st]"
  shows "\<exists>s. split_txlines_by_region US_STATES contains t tmp_gdf region_names region_states = Returned s \<and>
           rows_for i region_name (table_of s) =
             [(i, (as_row (tmp_gdf ! i))\<lparr>state := Str st, region := Str region_name\<rparr>)] \<and>
           tx_lines_csv s = Some (map snd (table_of s))"
  using split_rows [OF ok names reg i, of contains t] one by auto

theorem one_state_one_row_witness:
  "valid_state sample_states ''VT'' \<and> valid_state sample_states ''NH'' \<and>
   distinct (map fst (zip [''NE''] [[''VT'', ''NH'']])) \<and>
   (''NE'', [''VT'', ''NH'']) \<in> set (zip [''NE''] [[''VT'', ''NH'']]) \<and>
   0 < length [line_vt, line_both, line_out] \<and>
   filter (\<lambda>st. state_contains sample_states sample_contains st (geometry ([line_vt, line_both, line_out] ! 0)))
     [''VT'', ''NH''] = [''VT''] \<and>
   rows_for 0 ''NE'' (table_of (final_state (split_txlines_by_region sample_states sample_contains
      ''12:00:00'' [line_vt, line_both, line_out] [''NE''] [[''VT'', ''NH'']]))) =
     [(0, \<lparr>ID = Flt (Num 1), SHAPE_Leng = Flt (Num 2), VOLTAGE = Flt (Num 230), OWNER = Str ''GMP'',
            geometry = LineString [(Num 1, Num 1), (Num 2, Num 1), (Num 2, Num 2)],
            state = Str ''VT'', region = Str ''NE''\<rparr>)]"
proof -
  have ok: "\<forall>r\<in>set (zip [''NE''] [[''VT'', ''NH'']]).
              snd r \<noteq> [] \<and> (\<forall>st\<in>set (snd r). valid_state sample_states st)"
    by (simp add: valid_state_def state_polygon_def sample_defs)
  have v: "valid_state sample_states ''VT'' \<and> valid_state sample_states ''NH''"
    using ok by simp
  have names: "distinct (map fst (zip [''NE''] [[''VT'', ''NH'']]))" by simp
  have reg: "(''NE'', [''VT'', ''NH'']) \<in> set (zip [''NE''] [[''VT'', ''NH'']])" by simp
  have i: "0 < length [line_vt, line_both, line_out]" by simp
  have one: "filter (\<lambda>st. state_contains sample_states sample_contains st
                 (geometry ([line_vt, line_both, line_out] ! 0))) [''VT'', ''NH''] = [''VT'']"
    by (simp add: state_contains_def state_polygon_def sample_defs)
  from one_state_one_row [OF ok names reg i one, of "''12:00:00''"] obtain s where
    "split_txlines_by_region sample_states sample_contains ''12:00:00'' [line_vt, line_both, line_out]
       [''NE''] [[''VT'', ''NH'']] = Returned s"
    and "rows_for 0 ''NE'' (table_of s) =
           [(0, (as_row ([line_vt, line_both, line_out] ! 0))\<lparr>state := Str ''VT'', region := Str ''NE''\<rparr>)]"
    by blast
  then have "rows_for 0 ''NE'' (table_of (final_state (split_txlines_by_region sample_states sample_contains
      ''12:00:00'' [line_vt, line_both, line_out] [''NE''] [[''VT'', ''NH'']]))) =
     [(0, \<lparr>ID = Flt (Num 1), SHAPE_Leng = Flt (Num 2), VOLTAGE = Flt (Num 230), OWNER = Str ''GMP'',
            geometry = LineString [(Num 1, Num 1), (Num 2, Num 1), (Num 2, Num 2)],
            state = Str ''VT'', region = Str ''NE''\<rparr>)]"
    by (simp add: as_row_def line_vt_def)
  with v names reg i one show ?thesis by blast
qed

text \<open>
  Without the proviso the statement fails: the line below is inside Vermont only, but
  the second name of the region resolves to a geometry that is no area, the run raises
  and no row is produced.
\<close>

theorem one_state_one_row_counterexample:
  "filter (\<lambda>st. state_contains sample_states sample_contains st (geometry line_vt)) [''VT'', ''Lake''] = [''VT''] \<and>
   raised (split_txlines_by_region sample_states sample_contains ''12:00:00'' [line_vt]
             [''NE''] [[''VT'', ''Lake'']]) = Some (ValueError_invalid_polygon ''LineString'') \<and>
   table_of (final_state (split_txlines_by_region sample_states sample_contains ''12:00:00'' [line_vt]
             [''NE''] [[''VT'', ''Lake'']])) = [] \<and>
   tx_lines_csv (final_state (split_txlines_by_region sample_states sample_contains ''12:00:00'' [line_vt]
             [''NE''] [[''VT'', ''Lake'']])) = None"
  by (simp add: run_defs sample_defs state_contains_def table_of_def)

text \<open>
  On every input, a state among the regions paired with a name that resolves to no row
  of the reference table, or to a geometry that is neither Polygon nor MultiPolygon,
  makes the run raise before the csv file is written, and no count is logged for that
  state.
\<close>

lemma bad_state_aborts_run:
  assumes reg: "(region_name, region_state) \<in> set (zip region_names region_states)"
    and st: "st \<in> set region_state"
    and bad: "\<not> valid_state US_STATES st"
  shows "\<exists>e s. split_txlines_by_region US_STATES contains t tmp_gdf region_names region_states = Raised e s \<and>
           tx_lines_csv s = None \<and>
           (e = IndexError \<or>
            (\<exists>k. e = ValueError_invalid_polygon k \<and> k \<noteq> ''Polygon'' \<and> k \<noteq> ''MultiPolygon'') \<or>
            (e = UnboundLocalError ''region_df'' \<and> (\<exists>r\<in>set (zip region_names region_states). snd r = []))) \<and>
           (\<forall>n. State_records st n \<notin> set (written (logf s)))"
proof -
  let ?loop = "regions_loop US_STATES contains (enumerate 0 tmp_gdf) (zip region_names region_states)
                 (start_state t)"
  from regions_loop_bad [OF reg _ bad, of contains "enumerate 0 tmp_gdf" "start_state t"] st
  obtain e s where run: "?loop = Raised e s"
    by (cases ?loop) auto
  then have whole: "split_txlines_by_region US_STATES contains t tmp_gdf region_names region_states = Raised e s"
    by (simp add: split_txlines_by_region_def)
  have "tx_lines_csv s = None"
    using regions_loop_keeps [of US_STATES contains "enumerate 0 tmp_gdf"
            "zip region_names region_states" "start_state t"] run
    by (simp add: start_state_def)
  moreover have "\<forall>n. State_records st n \<notin> set (written (logf s))"
  proof
    fix n
    show "State_records st n \<notin> set (written (logf s))"
    proof
      assume "State_records st n \<in> set (written (logf s))"
      then have "State_records st n \<in> set (written (logf (final_state ?loop)))" by (simp add: run)
      from regions_loop_log [OF this] bad show False
        by (auto simp: start_state_def written_def log_write_def log_open_def)
    qed
  qed
  ultimately show ?thesis using whole regions_loop_kinds [OF run] by blast
qed

text \<open>
  Claim C3. An unknown state is claimed to make the run raise at once with the error
  for that state. With a region that has no states in front, the run never gets to the
  unknown state: it raises \<^verbatim>\<open>UnboundLocalError\<close> for \<^verbatim>\<open>region_df\<close> at the end of the
  empty region, after the start line and the banner of that region only.
\<close>

theorem empty_first_region_hides_unknown_state:
  "\<not> valid_state sample_states ''XX'' \<and>
   raised (split_txlines_by_region sample_states sample_contains ''12:00:00'' [line_vt]
             [''NE'', ''MW''] [[], [''XX'']]) = Some (UnboundLocalError ''region_df'') \<and>
   logf (final_state (split_txlines_by_region sample_states sample_contains ''12:00:00'' [line_vt]
             [''NE'', ''MW''] [[], [''XX'']])) =
     \<lparr>on_disk = [], buffered = [Logging_at ''12:00:00'', Region_banner ''NE''], is_open = True\<rparr> \<and>
   tx_lines_csv (final_state (split_txlines_by_region sample_states sample_contains ''12:00:00'' [line_vt]
             [''NE'', ''MW''] [[], [''XX'']])) = None"
  by (simp add: run_defs sample_defs valid_state_def)

text \<open>
  Claim C5. The table is claimed to be grouped by region in the order of
  \<^verbatim>\<open>region_names\<close>, and within a region by state in the order of its list. With a
  region that has no states after one that has, the run returns a table in which the
  rows of the earlier region stand twice, both times under the name of the later
  region: \<^verbatim>\<open>region_df\<close> still refers to the earlier region's frame, which is stamped
  again and appended again.
\<close>

theorem empty_region_restamps_previous:
  "raised (split_txlines_by_region sample_states sample_contains ''12:00:00'' [line_vt]
             [''NE'', ''MW''] [[''VT''], []]) = None \<and>
   tx_lines_csv (final_state (split_txlines_by_region sample_states sample_contains ''12:00:00''
      [line_vt] [''NE'', ''MW''] [[''VT''], []])) =
   Some [\<lparr>ID = Flt (Num 1), SHAPE_Leng = Flt (Num 2), VOLTAGE = Flt (Num 230), OWNER = Str ''GMP'',
           geometry = LineString [(Num 1, Num 1), (Num 2, Num 1), (Num 2, Num 2)],
           state = Str ''VT'', region = Str ''MW''\<rparr>,
         \<lparr>ID = Flt (Num 1), SHAPE_Leng = Flt (Num 2), VOLTAGE = Flt (Num 230), OWNER = Str ''GMP'',
           geometry = LineString [(Num 1, Num 1), (Num 2, Num 1), (Num 2, Num 2)],
           state = Str ''VT'', region = Str ''MW''\<rparr>]"
  by (simp add: run_defs sample_defs)

text \<open>
  Claim C6, amended. Provided every declared state resolves to a Polygon or
  MultiPolygon, every region lists at least one state and the region names are
  distinct: an input line that no state of a region contains has no row under that
  region's name; the run returns without an exception; and the log, flushed and
  closed, holds after the start line, for every region, its banner and for each of its
  states the number of input lines the state's area contains (so only zeros for a
  region that contains no line). A dropped line has no log entry of its own.
\<close>

theorem uncontained_line_dropped:
  assumes ok: "\<forall>r\<in>set (zip region_names region_states).
                 snd r \<noteq> [] \<and> (\<forall>st\<in>set (snd r). valid_state US_STATES st)"
    and names: "distinct (map fst (zip region_names region_states))"
    and reg: "(region_name, region_state) \<in> set (zip region_names region_states)"
    and i: "i < length tmp_gdf"
    and none: "\<forall>st\<in>set region_state. \<not> state_contains US_STATES contains st (geometry (tmp_gdf ! i))"
  shows "\<exists>s. split_txlines_by_region US_STATES contains t tmp_gdf region_names region_states = Returned s \<and>
           rows_for i region_name (table_of s) = [] \<and>
           tx_lines_csv s = Some (map snd (table_of s)) \<and>
           logf s = \<lparr>on_disk = Logging_at t # concat (map (\<lambda>r. Region_banner (fst r) #
                        map (\<lambda>st. State_records st
                               (length (filter (\<lambda>f. state_contains US_STATES contains st (geometry f)) tmp_gdf)))
                          (snd r)) (zip region_names region_states)),
                     buffered = [], is_open = False\<rparr>"
proof -
  from none have "filter (\<lambda>st. state_contains US_STATES contains st (geometry (tmp_gdf ! i))) region_state = []"
    by (simp add: filter_empty_conv)
  with split_rows [OF ok names reg i, of contains t] show ?thesis by auto
qed

theorem uncontained_line_dropped_witness:
  "valid_state sample_states ''VT'' \<and> valid_state sample_states ''NH'' \<and>
   distinct (map fst (zip [''NE''] [[''VT'', ''NH'']])) \<and>
   (''NE'', [''VT'', ''NH'']) \<in> set (zip [''NE''] [[''VT'', ''NH'']]) \<and>
   0 < length [line_out] \<and>
   \<not> state_contains sample_states sample_contains ''VT'' (geometry ([line_out] ! 0)) \<and>
   \<not> state_contains sample_states sample_contains ''NH'' (geometry ([line_out] ! 0)) \<and>
   raised (split_txlines_by_region sample_states sample_contains ''12:00:00'' [line_out]
             [''NE''] [[''VT'', ''NH'']]) = None \<and>
   table_of (final_state (split_txlines_by_region sample_states sample_contains ''12:00:00'' [line_out]
             [''NE''] [[''VT'', ''NH'']])) = [] \<and>
   on_disk (logf (final_state (split_txlines_by_region sample_states sample_contains ''12:00:00'' [line_out]
             [''NE''] [[''VT'', ''NH'']]))) =
     [Logging_at ''12:00:00'', Region_banner ''NE'', State_records ''VT'' 0, State_records ''NH'' 0]"
proof -
  have ok: "\<forall>r\<in>set (zip [''NE''] [[''VT'', ''NH'']]).
              snd r \<noteq> [] \<and> (\<forall>st\<in>set (snd r). valid_state sample_states st)"
    by (simp add: valid_state_def state_polygon_def sample_defs)
  have v: "valid_state sample_states ''VT'' \<and> valid_state sample_states ''NH''"
    using ok by simp
  have names: "distinct (map fst (zip [''NE''] [[''VT'', ''NH'']]))" by simp
  have reg: "(''NE'', [''VT'', ''NH'']) \<in> set (zip [''NE''] [[''VT'', ''NH'']])" by simp
  have i: "0 < length [line_out]" by simp
  have none: "\<forall>st\<in>set [''VT'', ''NH''].
                \<not> state_contains sample_states sample_contains st (geometry ([line_out] ! 0))"
    by (simp add: state_contains_def state_polygon_def sample_defs)
  have cnt: "\<And>st. st \<in> set [''VT'', ''NH''] \<Longrightarrow>
               length (filter (\<lambda>f. state_contains sample_states sample_contains st (geometry f)) [line_out]) = 0"
    using none by auto
  from uncontained_line_dropped [OF ok names reg i none, of "''12:00:00''"] obtain s where
    run: "split_txlines_by_region sample_states sample_contains ''12:00:00'' [line_out]
       [''NE''] [[''VT'', ''NH'']] = Returned s"
    and lg: "logf s = \<lparr>on_disk = Logging_at ''12:00:00'' # concat (map (\<lambda>r. Region_banner (fst r) #
                        map (\<lambda>st. State_records st
                               (length (filter (\<lambda>f. state_contains sample_states sample_contains st (geometry f)) [line_out])))
                          (snd r)) (zip [''NE''] [[''VT'', ''NH'']])),
                     buffered = [], is_open = False\<rparr>"
    by blast
  have tab: "table_of (final_state (split_txlines_by_region sample_states sample_contains ''12:00:00''
             [line_out] [''NE''] [[''VT'', ''NH'']])) = []"
    by (simp add: run_defs sample_defs table_of_def)
  have "on_disk (logf (final_state (split_txlines_by_region sample_states sample_contains ''12:00:00''
          [line_out] [''NE''] [[''VT'', ''NH'']]))) =
     [Logging_at ''12:00:00'', Region_banner ''NE'', State_records ''VT'' 0, State_records ''NH'' 0]"
    using lg cnt by (simp add: run)
  moreover have "\<not> state_contains sample_states sample_contains ''VT'' (geometry ([line_out] ! 0)) \<and>
      \<not> state_contains sample_states sample_contains ''NH'' (geometry ([line_out] ! 0))"
    using none by simp
  ultimately show ?thesis using v names reg i tab run by simp
qed

text \<open>
  Without the proviso the statement fails: no state of the region contains the line
  below, but the first name of the region is not in the reference table, the run
  raises and no count is logged for any state.
\<close>

theorem uncontained_line_dropped_counterexample:
  "\<not> state_contains sample_states sample_contains ''XX'' (geometry line_out) \<and>
   \<not> state_contains sample_states sample_contains ''VT'' (geometry line_out) \<and>
   raised (split_txlines_by_region sample_states sample_contains ''12:00:00'' [line_out]
             [''NE''] [[''XX'', ''VT'']]) = Some IndexError \<and>
   written (logf (final_state (split_txlines_by_region sample_states sample_contains ''12:00:00'' [line_out]
             [''NE''] [[''XX'', ''VT'']]))) = [Logging_at ''12:00:00'', Region_banner ''NE'']"
  by (simp add: run_defs sample_defs state_contains_def written_def)



text \<open>
  Claim C10, amended. Provided every declared state resolves to a Polygon or
  MultiPolygon, every region lists at least one state and the region names are
  distinct: for an input line that exactly two entries of a region's state list
  contain, the run returns and the table has two rows for that line under that
  region's name, one stamped with each of the two states, in the order of the list;
  it is not reduced to the row of the state processed last.
\<close>

theorem two_states_two_rows:
  assumes ok: "\<forall>r\<in>set (zip region_names region_states).
                 snd r \<noteq> [] \<and> (\<forall>st\<in>set (snd r). valid_state US_STATES st)"
    and names: "distinct (map fst (zip region_names region_states))"
    and reg: "(region_name, region_state) \<in> set (zip region_names region_states)"
    and i: "i < length tmp_gdf"
    and two: "filter (\<lambda>st. state_contains US_STATES contains st (geometry (tmp_gdf ! i))) region_state =
                [st1, st2]"
  shows "\<exists>s. split_txlines_by_region US_STATES contains t tmp_gdf region_names region_states = Returned s \<and>
           rows_for i region_name (table_of s) =
             [(i, (as_row (tmp_gdf ! i))\<lparr>state := Str st1, region := Str region_name\<rparr>),
              (i, (as_row (tmp_gdf ! i))\<lparr>state := Str st2, region := Str region_name\<rparr>)] \<and>
           tx_lines_csv s = Some (map snd (table_of s))"
  using split_rows [OF ok names reg i, of contains t] two by auto

theorem two_states_two_rows_witness:
  "valid_state sample_states ''VT'' \<and> valid_state sample_states ''NH'' \<and>
   distinct (map fst (zip [''NE''] [[''VT'', ''NH'']])) \<and>
   (''NE'', [''VT'', ''NH'']) \<in> set (zip [''NE''] [[''VT'', ''NH'']]) \<and>
   1 < length [line_vt, line_both, line_out] \<and>
   filter (\<lambda>st. state_contains sample_states sample_contains st (geometry ([line_vt, line_both, line_out] ! 1)))
     [''VT'', ''NH''] = [''VT'', ''NH''] \<and>
   map (\<lambda>r. (fst r, state (snd r), region (snd r)))
     (rows_for 1 ''NE'' (table_of (final_state (split_txlines_by_region sample_states sample_contains
        ''12:00:00'' [line_vt, line_both, line_out] [''NE''] [[''VT'', ''NH'']])))) =
     [(1, Str ''VT'', Str ''NE''), (1, Str ''NH'', Str ''NE'')]"
proof -
  have ok: "\<forall>r\<in>set (zip [''NE''] [[''VT'', ''NH'']]).
              snd r \<noteq> [] \<and> (\<forall>st\<in>set (snd r). valid_state sample_states st)"
    by (simp add: valid_state_def state_polygon_def sample_defs)
  have v: "valid_state sample_states ''VT'' \<and> valid_state sample_states ''NH''"
    using ok by simp
  have names: "distinct (map fst (zip [''NE''] [[''VT'', ''NH'']]))" by simp
  have reg: "(''NE'', [''VT'', ''NH'']) \<in> set (zip [''NE''] [[''VT'', ''NH'']])" by simp
  have i: "1 < length [line_vt, line_both, line_out]" by simp
  have two: "filter (\<lambda>st. state_contains sample_states sample_contains st
                 (geometry ([line_vt, line_both, line_out] ! 1))) [''VT'', ''NH''] = [''VT'', ''NH'']"
    by (simp add: state_contains_def state_polygon_def sample_defs)
  from two_states_two_rows [OF ok names reg i two, of "''12:00:00''"] obtain s where
    "split_txlines_by_region sample_states sample_contains ''12:00:00'' [line_vt, line_both, line_out]
       [''NE''] [[''VT'', ''NH'']] = Returned s"
    and "rows_for 1 ''NE'' (table_of s) =
           [(1, (as_row ([line_vt, line_both, line_out] ! 1))\<lparr>state := Str ''VT'', region := Str ''NE''\<rparr>),
            (1, (as_row ([line_vt, line_both, line_out] ! 1))\<lparr>state := Str ''NH'', region := Str ''NE''\<rparr>)]"
    by blast
  then have "map (\<lambda>r. (fst r, state (snd r), region (snd r)))
     (rows_for 1 ''NE'' (table_of (final_state (split_txlines_by_region sample_states sample_contains
        ''12:00:00'' [line_vt, line_both, line_out] [''NE''] [[''VT'', ''NH'']])))) =
     [(1, Str ''VT'', Str ''NE''), (1, Str ''NH'', Str ''NE'')]"
    by simp
  with v names reg i two show ?thesis by blast
qed

text \<open>
  Without the proviso the statement fails: two states of the region contain the line
  below, but the third name of the region is not in the reference table, the run
  raises and no row is produced.
\<close>

theorem two_states_two_rows_counterexample:
  "filter (\<lambda>st. state_contains sample_states sample_contains st (geometry line_both))
     [''VT'', ''NH'', ''XX''] = [''VT'', ''NH''] \<and>
   raised (split_txlines_by_region sample_states sample_contains ''12:00:00'' [line_both]
             [''NE''] [[''VT'', ''NH'', ''XX'']]) = Some IndexError \<and>
   table_of (final_state (split_txlines_by_region sample_states sample_contains ''12:00:00'' [line_both]
             [''NE''] [[''VT'', ''NH'', ''XX'']])) = [] \<and>
   tx_lines_csv (final_state (split_txlines_by_region sample_states sample_contains ''12:00:00'' [line_both]
             [''NE''] [[''VT'', ''NH'', ''XX'']])) = None"
  by (simp add: run_defs sample_defs state_contains_def table_of_def)

end
